(* ===== verification/Prelude.thy ===== *)
theory Prelude
  imports Main "HOL-Library.Word" "HOL-Library.Sublist" "HOL-Library.AList"
begin

text \<open>
  Shared vocabulary of the development: the machine integer type of the Go
  sources, the collections of facts the component theories feed, and the generic
  list lemma the provider's invariant proofs share.
\<close>

section \<open>Types shared by every component\<close>

text \<open>Go's \<open>int64\<close>: user identifiers are compared with the constant
  \<open>empty_value = 0\<close> and logged, never computed with, so the word type keeps the
  width of the source without any arithmetic.\<close>

type_synonym int64 = "64 word"

section \<open>Fact collections\<close>

text \<open>\<open>model_defs\<close> collects the definitions of the model that a closed
  instance unfolds when it is evaluated by \<open>simp\<close>; \<open>iface_simps\<close> collects the
  equations that say which function an interface value dispatches to.\<close>

named_theorems model_defs "definitions unfolded to evaluate the model"
named_theorems iface_simps "dispatch equations of interface values"

section \<open>Generic lemmas\<close>

text \<open>An association-list update keeps a property every entry has.\<close>

lemma list_all_update:
  "list_all P al \<Longrightarrow> P (k, v) \<Longrightarrow> list_all P (AList.update k v al)"
  by (induction al) auto

text \<open>Changing one entry of a list of naturals changes its sum by the
  difference; lowering it lowers the sum.\<close>

lemma sum_list_update_nat:
  "i < length xs \<Longrightarrow> sum_list (xs[i := y]) + xs ! i = sum_list xs + (y :: nat)"
  by (induction xs arbitrary: i) (auto split: nat.split)

end
