(* ===== verification/GoRuntime.thy ===== *)
theory GoRuntime
  imports Prelude
begin

text \<open>
  The parts of the Go standard library that the sources rely on for their
  behaviour, modelled from their documented semantics: error values made by
  \<open>errors.New\<close> and wrapped by \<open>fmt.Errorf\<close> with the \<open>%w\<close> verb, the
  \<open>errors.Is\<close> chain walk, and the structured logger \<open>log/slog\<close> with the
  repository's helper \<open>sl.Err\<close>. The service's error normalisation and its
  audit discipline are stated in these terms.
\<close>

section \<open>Error values\<close>

text \<open>
  \<open>errors.New text\<close> returns a fresh pointer: two sentinels with the same text
  are different values. The model gives every leaf error the identity of the
  variable that declares it (\<open>ErrNew origin text\<close>), so that
  \<open>storage.ErrUserNotFound\<close> and \<open>permissions.ErrUserNotFound\<close> differ as they
  do in Go. \<open>fmt.Errorf("%s: %w", op, e)\<close> returns a \<open>*wrapError\<close> whose
  message is the formatted string and whose \<open>Unwrap\<close> is \<open>e\<close>.
\<close>

datatype go_error =
    ErrNew (err_origin: string) (err_text: string)
  | WrapError (wmsg: string) (wrapped: go_error)

primrec Error :: "go_error \<Rightarrow> string" where
  "Error (ErrNew org t) = t"
| "Error (WrapError m e) = m"

primrec Unwrap :: "go_error \<Rightarrow> go_error option" where
  "Unwrap (ErrNew org t) = None"
| "Unwrap (WrapError m e) = Some e"

definition fmt_Errorf_w :: "string \<Rightarrow> go_error \<Rightarrow> go_error" where
  "fmt_Errorf_w op e = WrapError (op @ '': '' @ Error e) e"

text \<open>
  \<open>errors.Is(err, target)\<close> compares \<open>err\<close> with \<open>target\<close> and repeats on
  \<open>Unwrap(err)\<close> until the chain ends. Go compares interface values holding
  pointers by identity; the targets of the sources are always leaf sentinels,
  whose identity the model keeps, so structural equality agrees with Go's on
  every call of the sources.
\<close>

text \<open>The leaf at the end of an error's \<open>Unwrap\<close> chain: the root cause.\<close>

primrec err_root :: "go_error \<Rightarrow> go_error" where
  "err_root (ErrNew org t) = ErrNew org t"
| "err_root (WrapError m e) = err_root e"

primrec errors_Is :: "go_error \<Rightarrow> go_error \<Rightarrow> bool" where
  "errors_Is (ErrNew org t) target = (ErrNew org t = target)"
| "errors_Is (WrapError m e) target = (WrapError m e = target \<or> errors_Is e target)"

text \<open>The errors package \<open>context\<close> returns from \<open>ctx.Err()\<close> when a call
  is cancelled or its deadline passes; a provider that honours the context
  it is given fails with them (or wraps them).\<close>

definition context_Canceled :: go_error where
  "context_Canceled = ErrNew ''context.Canceled'' ''context canceled''"

definition context_DeadlineExceeded :: go_error where
  "context_DeadlineExceeded = ErrNew ''context.DeadlineExceeded'' ''context deadline exceeded''"

lemmas context_errors [model_defs] = context_Canceled_def context_DeadlineExceeded_def

section \<open>Structured logging\<close>

text \<open>
  \<open>slog.Level\<close> is an integer; the named levels are Debug \<open>-4\<close>, Info \<open>0\<close>,
  Warn \<open>4\<close> and Error \<open>8\<close>. A logger is a handler with a minimum level and the
  attributes bound by \<open>With\<close>; every record it emits goes to one output, the
  sink, which the model passes explicitly as a list of records in the order
  written.
\<close>

type_synonym Level = int

definition LevelDebug :: Level where "LevelDebug = -4"
definition LevelInfo :: Level where "LevelInfo = 0"
definition LevelWarn :: Level where "LevelWarn = 4"
definition LevelError :: Level where "LevelError = 8"

lemmas level_defs [model_defs] = LevelDebug_def LevelInfo_def LevelWarn_def LevelError_def

datatype Value = StringValue string | Int64Value int64

type_synonym Attr = "string \<times> Value"

record Logger =
  handler_level :: Level
  bound_attrs :: "Attr list"

record Record =
  rec_level :: Level
  rec_msg :: string
  rec_attrs :: "Attr list"

type_synonym sink = "Record list"

definition slog_String :: "string \<Rightarrow> string \<Rightarrow> Attr" where
  "slog_String k v = (k, StringValue v)"

definition slog_Int64 :: "string \<Rightarrow> int64 \<Rightarrow> Attr" where
  "slog_Int64 k v = (k, Int64Value v)"

definition Logger_With :: "Logger \<Rightarrow> Attr list \<Rightarrow> Logger" where
  "Logger_With l as = l\<lparr>bound_attrs := bound_attrs l @ as\<rparr>"

text \<open>\<open>Logger.log\<close>: a record below the handler's level is dropped;
  otherwise it carries the bound attributes followed by the call's own.\<close>

definition Logger_log :: "Logger \<Rightarrow> Level \<Rightarrow> string \<Rightarrow> Attr list \<Rightarrow> sink \<Rightarrow> sink" where
  "Logger_log l lv msg args out =
     (if lv < handler_level l then out
      else out @ [\<lparr>rec_level = lv, rec_msg = msg, rec_attrs = bound_attrs l @ args\<rparr>])"

definition Logger_Info :: "Logger \<Rightarrow> string \<Rightarrow> Attr list \<Rightarrow> sink \<Rightarrow> sink" where
  "Logger_Info l = Logger_log l LevelInfo"

definition Logger_Warn :: "Logger \<Rightarrow> string \<Rightarrow> Attr list \<Rightarrow> sink \<Rightarrow> sink" where
  "Logger_Warn l = Logger_log l LevelWarn"

definition Logger_Error :: "Logger \<Rightarrow> string \<Rightarrow> Attr list \<Rightarrow> sink \<Rightarrow> sink" where
  "Logger_Error l = Logger_log l LevelError"

text \<open>\<open>sl.Err\<close> (internal/lib/logger/sl): the attribute \<open>error\<close> holding
  the error's message.\<close>

definition sl_Err :: "go_error \<Rightarrow> Attr" where
  "sl_Err e = (''error'', StringValue (Error e))"

lemmas logging_defs [model_defs] = slog_String_def slog_Int64_def Logger_With_def
  Logger_log_def Logger_Info_def Logger_Warn_def Logger_Error_def sl_Err_def

section \<open>Lemmas on errors\<close>

lemma errors_Is_refl [simp]: "errors_Is e e"
  by (cases e) auto

text \<open>Wrapping keeps every error of the chain visible to \<open>errors.Is\<close>.\<close>

lemma errors_Is_fmt_Errorf_w [simp]:
  "errors_Is (fmt_Errorf_w op e) t \<longleftrightarrow> fmt_Errorf_w op e = t \<or> errors_Is e t"
  by (simp add: fmt_Errorf_w_def)

text \<open>The loop of \<open>errors.Is\<close> as Go writes it: compare, then follow
  \<open>Unwrap\<close> until it gives nothing.\<close>

lemma errors_Is_Unwrap:
  "errors_Is e t \<longleftrightarrow> e = t \<or> (case Unwrap e of None \<Rightarrow> False | Some e' \<Rightarrow> errors_Is e' t)"
  by (cases e) auto

lemma Unwrap_fmt_Errorf_w [simp]: "Unwrap (fmt_Errorf_w op e) = Some e"
  by (simp add: fmt_Errorf_w_def)

text \<open>Against a leaf target, \<open>errors.Is\<close> asks for the root cause; so an
  error is \<open>Is\<close> at most one leaf sentinel.\<close>

lemma errors_Is_leaf [simp]: "errors_Is e (ErrNew org t) \<longleftrightarrow> err_root e = ErrNew org t"
  by (induction e) auto

lemma err_root_fmt_Errorf_w [simp]: "err_root (fmt_Errorf_w op e) = err_root e"
  by (simp add: fmt_Errorf_w_def)

lemma err_root_idem [simp]: "err_root (err_root e) = err_root e"
  by (induction e) simp_all

lemma Error_fmt_Errorf_w [simp]: "Error (fmt_Errorf_w op e) = op @ '': '' @ Error e"
  by (simp add: fmt_Errorf_w_def)

section \<open>Lemmas on the logger\<close>

text \<open>Logging only appends: the sink before a call is a prefix of the sink
  after it.\<close>

lemma Logger_log_prefix [simp, intro]: "prefix out (Logger_log l lv msg args out)"
  by (simp add: Logger_log_def)

lemma Logger_With_level [simp]: "handler_level (Logger_With l as) = handler_level l"
  by (simp add: Logger_With_def)

end
