(* ===== verification/Storage.thy ===== *)
theory Storage
  imports GoRuntime
begin

text \<open>
  Package \<open>storage\<close> (src/internal/storage/storage.go): the storage layer's
  sentinel errors and the closed permission vocabulary \<open>AllPermissions\<close> that
  the gRPC adapter validates against.
\<close>

definition storage_ErrUserExists :: go_error where
  "storage_ErrUserExists = ErrNew ''storage.ErrUserExists'' ''user already exists''"

definition storage_ErrUserNotFound :: go_error where
  "storage_ErrUserNotFound = ErrNew ''storage.ErrUserNotFound'' ''user not found''"

definition storage_ErrAppNotFound :: go_error where
  "storage_ErrAppNotFound = ErrNew ''storage.ErrAppNotFound'' ''app not found''"

lemmas storage_errors [model_defs] =
  storage_ErrUserExists_def storage_ErrUserNotFound_def storage_ErrAppNotFound_def

definition AllPermissions :: "string list" where
  "AllPermissions = [''read'', ''write'', ''delete'', ''update'']"

declare AllPermissions_def [model_defs]

text \<open>The empty string is not a permission, so the adapter's
  empty-permission check only chooses the message of a rejection.\<close>

end
