(* ===== verification/Service.thy ===== *)
theory Service
  imports Storage
begin

text \<open>
  Package \<open>services/permissions\<close> (src/internal/services/permissions/permissions.go):
  the authorization service. It holds a logger and a provider, calls the
  provider once per operation, normalises the provider's domain failures into
  its own sentinels wrapped with an operation tag, and writes audit records
  before and after the call. The provider is an interface value: a record of
  its four methods over the provider's own state \<open>'p\<close>, which the service
  threads through unchanged except by the provider's calls.
\<close>

section \<open>Sentinel errors of the service\<close>

definition ErrInvalidPermissions :: go_error where
  "ErrInvalidPermissions = ErrNew ''permissions.ErrInvalidPermissions'' ''invalid permissions''"

definition ErrUserNotFound :: go_error where
  "ErrUserNotFound = ErrNew ''permissions.ErrUserNotFound'' ''user not found''"

definition ErrPermissionExists :: go_error where
  "ErrPermissionExists = ErrNew ''permissions.ErrPermissionExists'' ''permission already exists''"

definition ErrPermissionNotFound :: go_error where
  "ErrPermissionNotFound = ErrNew ''permissions.ErrPermissionNotFound'' ''permission not found''"

lemmas service_errors [model_defs] = ErrInvalidPermissions_def ErrUserNotFound_def
  ErrPermissionExists_def ErrPermissionNotFound_def

section \<open>The provider interface and the service's state\<close>

text \<open>
  \<open>PermissionsProvider\<close>: each method takes the provider's state and returns
  the new state with either the error (\<open>err != nil\<close>) or the result. A Go
  method returns a value together with its error; the sources never read the
  value when the error is not nil, so the sum loses nothing they observe. The
  \<open>ctx\<close> argument is passed along unchanged and is not modelled.
\<close>

record 's PermissionsProvider =
  m_AddPerm :: "'s \<Rightarrow> int64 \<Rightarrow> string \<Rightarrow> 's \<times> (go_error + bool)"
  m_RemovePerm :: "'s \<Rightarrow> int64 \<Rightarrow> string \<Rightarrow> 's \<times> (go_error + bool)"
  m_CheckPerm :: "'s \<Rightarrow> int64 \<Rightarrow> string \<Rightarrow> 's \<times> (go_error + bool)"
  m_ListPerm :: "'s \<Rightarrow> int64 \<Rightarrow> 's \<times> (go_error + string list)"

text \<open>The struct \<open>Permissions\<close>: its two fields never change after \<open>New\<close>.\<close>

record 'p Permissions =
  log :: Logger
  permProvider :: "'p PermissionsProvider"

text \<open>What an operation changes: the log sink (every record written, in
  order) and the provider's state.\<close>

record 'p World =
  out :: sink
  pstate :: 'p

definition New :: "Logger \<Rightarrow> 'p PermissionsProvider \<Rightarrow> 'p Permissions" where
  "New l pp = \<lparr>log = l, permProvider = pp\<rparr>"

text \<open>\<open>p.log.With(slog.String("op", op), slog.Int64("user_id", uid),
  slog.String("permission", perm))\<close>, the first line of every operation.\<close>

definition op_logger :: "'p Permissions \<Rightarrow> string \<Rightarrow> int64 \<Rightarrow> string \<Rightarrow> Logger" where
  "op_logger p op uid perm =
     Logger_With (log p) [slog_String ''op'' op, slog_Int64 ''user_id'' uid, slog_String ''permission'' perm]"

section \<open>Operations\<close>

definition AddPerm :: "'p Permissions \<Rightarrow> 'p World \<Rightarrow> int64 \<Rightarrow> string \<Rightarrow> 'p World \<times> (go_error + bool)" where
  "AddPerm p w uid addedPerm =
     (let op = ''permissions.AddPerm'';
          lg = op_logger p op uid addedPerm;
          o1 = Logger_Info lg ''attempting to add permission'' [] (out w)
      in case m_AddPerm (permProvider p) (pstate w) uid addedPerm of
           (s', Inl err) \<Rightarrow>
             if errors_Is err ErrUserNotFound then
               (w\<lparr>out := Logger_Warn lg ''user not found'' [sl_Err err] o1, pstate := s'\<rparr>,
                Inl (fmt_Errorf_w op ErrUserNotFound))
             else if errors_Is err ErrPermissionExists then
               (w\<lparr>out := Logger_Warn lg ''permission already exists'' [sl_Err err] o1, pstate := s'\<rparr>,
                Inl (fmt_Errorf_w op ErrPermissionExists))
             else
               (w\<lparr>out := Logger_Error lg ''failed to add permission'' [sl_Err err] o1, pstate := s'\<rparr>,
                Inl err)
         | (s', Inr res) \<Rightarrow>
             (w\<lparr>out := Logger_Info lg ''permission added successfully'' [] o1, pstate := s'\<rparr>, Inr res))"

definition RemovePerm :: "'p Permissions \<Rightarrow> 'p World \<Rightarrow> int64 \<Rightarrow> string \<Rightarrow> 'p World \<times> (go_error + bool)" where
  "RemovePerm p w uid RemovedPerm =
     (let op = ''permissions.RemovePerm'';
          lg = op_logger p op uid RemovedPerm;
          o1 = Logger_Info lg ''attempting to remove permission'' [] (out w)
      in case m_RemovePerm (permProvider p) (pstate w) uid RemovedPerm of
           (s', Inl err) \<Rightarrow>
             if errors_Is err ErrUserNotFound then
               (w\<lparr>out := Logger_Warn lg ''user not found'' [sl_Err err] o1, pstate := s'\<rparr>,
                Inl (fmt_Errorf_w op ErrUserNotFound))
             else if errors_Is err ErrPermissionNotFound then
               (w\<lparr>out := Logger_Warn lg ''permission not found'' [sl_Err err] o1, pstate := s'\<rparr>,
                Inl (fmt_Errorf_w op ErrPermissionNotFound))
             else
               (w\<lparr>out := Logger_Error lg ''failed to remove permission'' [sl_Err err] o1, pstate := s'\<rparr>,
                Inl err)
         | (s', Inr res) \<Rightarrow>
             (w\<lparr>out := Logger_Info lg ''permission removed successfully'' [] o1, pstate := s'\<rparr>, Inr res))"

definition CheckPerm :: "'p Permissions \<Rightarrow> 'p World \<Rightarrow> int64 \<Rightarrow> string \<Rightarrow> 'p World \<times> (go_error + bool)" where
  "CheckPerm p w uid CheckedPerm =
     (let op = ''permissions.CheckPerm'';
          lg = op_logger p op uid CheckedPerm;
          o1 = Logger_Info lg ''attempting to check permission'' [] (out w)
      in case m_CheckPerm (permProvider p) (pstate w) uid CheckedPerm of
           (s', Inl err) \<Rightarrow>
             if errors_Is err ErrUserNotFound then
               (w\<lparr>out := Logger_Warn lg ''user not found'' [sl_Err err] o1, pstate := s'\<rparr>,
                Inl (fmt_Errorf_w op ErrUserNotFound))
             else
               (w\<lparr>out := Logger_Error lg ''failed to check permission'' [sl_Err err] o1, pstate := s'\<rparr>,
                Inl err)
         | (s', Inr res) \<Rightarrow>
             (let o2 = Logger_Info lg ''permission checked successfully'' [] o1;
                  o3 = (if res then Logger_Info lg ''user has permission'' [] o2
                        else Logger_Info lg ''user does not have permission'' [] o2)
              in (w\<lparr>out := o3, pstate := s'\<rparr>, Inr res)))"

text \<open>\<open>ListPerm\<close> as written: it neither logs nor calls the provider, and
  answers the constant list \<open>["reed"]\<close> whatever the user.\<close>

definition ListPerm :: "'p Permissions \<Rightarrow> 'p World \<Rightarrow> int64 \<Rightarrow> 'p World \<times> (go_error + string list)" where
  "ListPerm p w uid = (w, Inr [''reed''])"

section \<open>The operations seen uniformly\<close>

text \<open>
  \<open>AddPerm\<close>, \<open>RemovePerm\<close> and \<open>CheckPerm\<close> share one shape: tag the
  logger, log the attempt, call the provider, sort its failure into a domain
  fault (logged at Warn, answered with the service's own sentinel wrapped with
  the operation tag) or an infrastructure fault (logged at Error, answered
  unchanged), and log the success. The taxonomy of spec section 4.2 is stated
  once here, per operation kind.
\<close>

datatype op_kind = OpAdd | OpRemove | OpCheck

primrec svc_op :: "op_kind \<Rightarrow> 'p Permissions \<Rightarrow> 'p World \<Rightarrow> int64 \<Rightarrow> string \<Rightarrow> 'p World \<times> (go_error + bool)" where
  "svc_op OpAdd = AddPerm"
| "svc_op OpRemove = RemovePerm"
| "svc_op OpCheck = CheckPerm"

primrec prov_op :: "op_kind \<Rightarrow> 's PermissionsProvider \<Rightarrow> 's \<Rightarrow> int64 \<Rightarrow> string \<Rightarrow> 's \<times> (go_error + bool)" where
  "prov_op OpAdd = m_AddPerm"
| "prov_op OpRemove = m_RemovePerm"
| "prov_op OpCheck = m_CheckPerm"

primrec op_name :: "op_kind \<Rightarrow> string" where
  "op_name OpAdd = ''permissions.AddPerm''"
| "op_name OpRemove = ''permissions.RemovePerm''"
| "op_name OpCheck = ''permissions.CheckPerm''"

primrec attempt_msg :: "op_kind \<Rightarrow> string" where
  "attempt_msg OpAdd = ''attempting to add permission''"
| "attempt_msg OpRemove = ''attempting to remove permission''"
| "attempt_msg OpCheck = ''attempting to check permission''"

primrec domain_faults :: "op_kind \<Rightarrow> go_error list" where
  "domain_faults OpAdd = [ErrUserNotFound, ErrPermissionExists]"
| "domain_faults OpRemove = [ErrUserNotFound, ErrPermissionNotFound]"
| "domain_faults OpCheck = [ErrUserNotFound]"

definition is_domain_fault :: "op_kind \<Rightarrow> go_error \<Rightarrow> bool" where
  "is_domain_fault k e = list_ex (errors_Is e) (domain_faults k)"

text \<open>The severity the audit promises for an outcome: Info for a success,
  Warn for a domain fault, Error for anything else.\<close>

definition severity :: "op_kind \<Rightarrow> go_error + bool \<Rightarrow> Level" where
  "severity k r = (case r of Inr _ \<Rightarrow> LevelInfo
                   | Inl e \<Rightarrow> if is_domain_fault k e then LevelWarn else LevelError)"

text \<open>\<open>*Permissions\<close> satisfies the adapter's \<open>Permissions\<close> interface (the
  same method set as \<open>PermissionsProvider\<close>): the interface value whose state
  is the service's world.\<close>

definition as_iface :: "'p Permissions \<Rightarrow> 'p World PermissionsProvider" where
  "as_iface p = \<lparr>m_AddPerm = AddPerm p, m_RemovePerm = RemovePerm p,
                 m_CheckPerm = CheckPerm p, m_ListPerm = ListPerm p\<rparr>"

lemma as_iface_simps [simp, iface_simps]:
  "m_AddPerm (as_iface p) = AddPerm p" "m_RemovePerm (as_iface p) = RemovePerm p"
  "m_CheckPerm (as_iface p) = CheckPerm p" "m_ListPerm (as_iface p) = ListPerm p"
  by (simp_all add: as_iface_def)

lemma New_simps [simp]: "log (New l pp) = l" "permProvider (New l pp) = pp"
  by (simp_all add: New_def)

lemmas svc_unfold = AddPerm_def RemovePerm_def CheckPerm_def Let_def

lemma svc_op_result:
  assumes "prov_op k (permProvider p) (pstate w) uid q = (s', r)"
  shows "pstate (fst (svc_op k p w uid q)) = s' \<and>
         snd (svc_op k p w uid q) =
           map_sum (\<lambda>e. if is_domain_fault k e then fmt_Errorf_w (op_name k) (err_root e) else e) id r"
  using assms by (cases k; cases r) (auto simp: svc_unfold is_domain_fault_def service_errors)

lemma svc_op_simps [simp]:
  "svc_op OpAdd p = AddPerm p" "svc_op OpRemove p = RemovePerm p" "svc_op OpCheck p = CheckPerm p"
  by simp_all

lemma svc_op_pstate:
  "pstate (fst (svc_op k p w uid q)) = fst (prov_op k (permProvider p) (pstate w) uid q)"
  using svc_op_result [OF surjective_pairing] by blast

text \<open>The service only appends to the sink.\<close>

section \<open>Error normalisation\<close>

text \<open>
  C5: on a provider failure, each operation answers a domain fault of its
  kind with the service's own sentinel for that root cause, wrapped with the
  operation tag (\<open>"permissions.AddPerm: user not found"\<close>), and passes every
  other failure through unchanged.
\<close>

theorem svc_normalise:
  assumes "prov_op k (permProvider p) (pstate w) uid q = (s', Inl e)"
  shows "snd (svc_op k p w uid q) =
         Inl (if is_domain_fault k e then fmt_Errorf_w (op_name k) (err_root e) else e)"
  using assms by (cases k) (auto simp: svc_unfold is_domain_fault_def service_errors)

text \<open>
  C6: the normalisation refines the provider's outcome: the provider's new
  state is the service's, a success value is passed on unchanged, and a
  failure keeps its root cause, so \<open>errors.Is\<close> against any sentinel answers
  the same for the service's error as for the provider's.
\<close>

theorem svc_root_cause:
  assumes "prov_op k (permProvider p) (pstate w) uid q = (s', r)"
  shows "pstate (fst (svc_op k p w uid q)) = s' \<and>
         map_sum err_root id (snd (svc_op k p w uid q)) = map_sum err_root id r"
  using assms by (cases k; cases r) (auto simp: svc_unfold service_errors)

text \<open>
  C11: a provider that reports an absent user with the storage package's
  sentinel \<open>storage.ErrUserNotFound\<close> (same text, another variable) is not
  recognised: the service passes the error on unwrapped, as an
  infrastructure fault, and, with a logger that lets Error through, the last
  record it writes is at Error and carries the error.
\<close>

theorem storage_not_found_is_infra:
  assumes "prov_op k (permProvider p) (pstate w) uid q = (s', Inl e)"
    and "errors_Is e storage_ErrUserNotFound"
    and "handler_level (log p) \<le> LevelError"
  shows "snd (svc_op k p w uid q) = Inl e \<and>
         rec_level (last (out (fst (svc_op k p w uid q)))) = LevelError \<and>
         sl_Err e \<in> set (rec_attrs (last (out (fst (svc_op k p w uid q)))))"
proof -
  from assms(2) have "\<not> errors_Is e ErrUserNotFound" "\<not> errors_Is e ErrPermissionExists"
    "\<not> errors_Is e ErrPermissionNotFound"
    by (simp_all add: service_errors storage_errors)
  with assms(1,3) show ?thesis
    by (cases k) (auto simp: svc_unfold op_logger_def logging_defs level_defs)
qed

section \<open>Audit discipline\<close>

text \<open>
  C7: with a logger that lets Info through, every attempt writes exactly two
  records (three for a successful check: the extra one says whether the user
  holds the permission), the first the Info record "attempting to ...", the
  second at the severity of the outcome, and every record carries the
  operation's tags.
\<close>

theorem svc_audit:
  assumes "handler_level (log p) \<le> LevelInfo"
    and "prov_op k (permProvider p) (pstate w) uid q = (s', r)"
  shows "\<exists>recs. out (fst (svc_op k p w uid q)) = out w @ recs \<and>
     length recs = (if k = OpCheck \<and> \<not> isl r then 3 else 2) \<and>
     rec_level (recs ! 0) = LevelInfo \<and> rec_msg (recs ! 0) = attempt_msg k \<and>
     rec_level (recs ! 1) = severity k r \<and>
     (\<forall>x \<in> set recs. prefix (bound_attrs (op_logger p (op_name k) uid q)) (rec_attrs x))"
  using assms by (cases k; cases r)
    (auto simp: svc_unfold severity_def is_domain_fault_def logging_defs level_defs op_logger_def)


end
