(* ===== verification/Server.thy ===== *)
theory Server
  imports Service
begin

text \<open>
  Package \<open>grpc/permissions\<close> (src/internal/grpc/permissions/server.go): the
  gRPC adapter. Each handler validates its request (fixed order of checks,
  first failure wins), calls the service through the \<open>Permissions\<close>
  interface, and maps every service failure to the one status
  \<open>Internal "internal error"\<close>. The adapter is generic in the state \<open>'s\<close>
  of whatever implements the interface; the root theory plugs in the service
  of \<^theory_text>\<open>Service\<close>. The registration with the gRPC server, whose generated
  method table routes each RPC to a method of \<open>serverAPI\<close> by name, is the
  dispatch function \<open>serve\<close>.
\<close>

section \<open>Wire types\<close>

text \<open>\<open>google.golang.org/grpc/codes\<close>, in the order of their numbers.\<close>

datatype Code = OK | Canceled | Unknown | InvalidArgument | DeadlineExceeded | NotFound
  | AlreadyExists | PermissionDenied | ResourceExhausted | FailedPrecondition | Aborted
  | OutOfRange | Unimplemented | Internal | Unavailable | DataLoss | Unauthenticated

record status =
  code :: Code
  message :: string

definition status_Error :: "Code \<Rightarrow> string \<Rightarrow> status" where
  "status_Error c m = \<lparr>code = c, message = m\<rparr>"

text \<open>The request messages of \<open>ssov1\<close>: check, add and remove carry a user
  id and a permission, list only a user id. The generated getters
  \<open>GetUserId\<close>, \<open>GetPermission\<close> are the field selectors.\<close>

record PermRequest =
  user_id :: int64
  permission :: string

type_synonym CheckPermissionRequest = PermRequest
type_synonym AddPermissionRequest = PermRequest
type_synonym RemovePermissionRequest = PermRequest

record ListPermissionsRequest =
  list_user_id :: int64

datatype CheckPermissionResponse = CheckPermissionResponse (HasPermission: bool)
datatype AddPermissionResponse = AddPermissionResponse (add_Success: bool)
datatype RemovePermissionResponse = RemovePermissionResponse (remove_Success: bool)
datatype ListPermissionsResponse = ListPermissionsResponse (Permissions_list: "string list")

section \<open>Validation\<close>

definition empty_value :: int64 where
  "empty_value = 0"

text \<open>A validator returns \<open>None\<close> for \<open>nil\<close> and the status otherwise.\<close>

definition ValidateCheckPermission :: "CheckPermissionRequest \<Rightarrow> status option" where
  "ValidateCheckPermission req =
     (if user_id req = empty_value then Some (status_Error InvalidArgument ''user_id is required'')
      else if permission req = '''' then Some (status_Error InvalidArgument ''permission is required'')
      else if permission req \<notin> set AllPermissions then Some (status_Error InvalidArgument ''invalid permission'')
      else None)"

definition ValidateAddPermission :: "AddPermissionRequest \<Rightarrow> status option" where
  "ValidateAddPermission req =
     (if user_id req = empty_value then Some (status_Error InvalidArgument ''user_id is required'')
      else if permission req = '''' then Some (status_Error InvalidArgument ''permission is required'')
      else if permission req \<notin> set AllPermissions then Some (status_Error InvalidArgument ''invalid permission'')
      else None)"

definition ValidateListPermissions :: "ListPermissionsRequest \<Rightarrow> status option" where
  "ValidateListPermissions req =
     (if list_user_id req = empty_value then Some (status_Error InvalidArgument ''user_id is required'')
      else None)"

definition ValidateRemovePermissions :: "RemovePermissionRequest \<Rightarrow> status option" where
  "ValidateRemovePermissions req =
     (if user_id req = empty_value then Some (status_Error InvalidArgument ''user_id is required'')
      else if permission req = '''' then Some (status_Error InvalidArgument ''permission is required'')
      else if permission req \<notin> set AllPermissions then Some (status_Error InvalidArgument ''invalid permission'')
      else None)"

section \<open>Handlers\<close>

text \<open>\<open>serverAPI\<close> holds the \<open>Permissions\<close> interface value (the embedded
  \<open>UnimplementedPermissionsServer\<close> only matters for dispatch, below).\<close>

record 's serverAPI =
  permissions :: "'s PermissionsProvider"

definition internal_error :: status where
  "internal_error = status_Error Internal ''internal error''"

definition CheckPermission ::
  "'s serverAPI \<Rightarrow> 's \<Rightarrow> CheckPermissionRequest \<Rightarrow> 's \<times> (status + CheckPermissionResponse)" where
  "CheckPermission srv s req =
     (case ValidateCheckPermission req of
        Some err \<Rightarrow> (s, Inl err)
      | None \<Rightarrow>
          (case m_CheckPerm (permissions srv) s (user_id req) (permission req) of
             (s', Inl _) \<Rightarrow> (s', Inl internal_error)
           | (s', Inr check) \<Rightarrow> (s', Inr (CheckPermissionResponse check))))"

definition AddPermission ::
  "'s serverAPI \<Rightarrow> 's \<Rightarrow> AddPermissionRequest \<Rightarrow> 's \<times> (status + AddPermissionResponse)" where
  "AddPermission srv s req =
     (case ValidateAddPermission req of
        Some err \<Rightarrow> (s, Inl err)
      | None \<Rightarrow>
          (case m_AddPerm (permissions srv) s (user_id req) (permission req) of
             (s', Inl _) \<Rightarrow> (s', Inl internal_error)
           | (s', Inr add) \<Rightarrow> (s', Inr (AddPermissionResponse add))))"

definition ListPermissions ::
  "'s serverAPI \<Rightarrow> 's \<Rightarrow> ListPermissionsRequest \<Rightarrow> 's \<times> (status + ListPermissionsResponse)" where
  "ListPermissions srv s req =
     (case ValidateListPermissions req of
        Some err \<Rightarrow> (s, Inl err)
      | None \<Rightarrow>
          (case m_ListPerm (permissions srv) s (list_user_id req) of
             (s', Inl _) \<Rightarrow> (s', Inl internal_error)
           | (s', Inr list) \<Rightarrow> (s', Inr (ListPermissionsResponse list))))"

text \<open>The remove handler as the source spells it, \<open>RemovePermissionc\<close>.\<close>

definition RemovePermissionc ::
  "'s serverAPI \<Rightarrow> 's \<Rightarrow> RemovePermissionRequest \<Rightarrow> 's \<times> (status + RemovePermissionResponse)" where
  "RemovePermissionc srv s req =
     (case ValidateRemovePermissions req of
        Some err \<Rightarrow> (s, Inl err)
      | None \<Rightarrow>
          (case m_RemovePerm (permissions srv) s (user_id req) (permission req) of
             (s', Inl _) \<Rightarrow> (s', Inl internal_error)
           | (s', Inr remove) \<Rightarrow> (s', Inr (RemovePermissionResponse remove))))"

section \<open>Registration and dispatch\<close>

text \<open>
  \<open>Register\<close> hands \<open>&serverAPI{permissions}\<close> to the generated
  \<open>RegisterPermissionsServer\<close>, whose method table calls the method of the
  \<open>PermissionsServer\<close> interface with the RPC's name. \<open>serverAPI\<close> defines
  \<open>CheckPermission\<close>, \<open>AddPermission\<close> and \<open>ListPermissions\<close>; it has no
  method \<open>RemovePermission\<close>, so that RPC reaches the method promoted from the
  embedded \<open>UnimplementedPermissionsServer\<close>, which answers
  \<open>Unimplemented\<close> (protoc-gen-go-grpc's generated stub).
\<close>

datatype rpc_call =
    CheckPermissionCall CheckPermissionRequest
  | AddPermissionCall AddPermissionRequest
  | RemovePermissionCall RemovePermissionRequest
  | ListPermissionsCall ListPermissionsRequest

datatype rpc_reply =
    CheckPermissionReply CheckPermissionResponse
  | AddPermissionReply AddPermissionResponse
  | RemovePermissionReply RemovePermissionResponse
  | ListPermissionsReply ListPermissionsResponse

definition Unimplemented_RemovePermission ::
  "'s \<Rightarrow> RemovePermissionRequest \<Rightarrow> 's \<times> (status + RemovePermissionResponse)" where
  "Unimplemented_RemovePermission s req =
     (s, Inl (status_Error Unimplemented ''method RemovePermission not implemented''))"

definition reply_as :: "('r \<Rightarrow> rpc_reply) \<Rightarrow> 's \<times> (status + 'r) \<Rightarrow> 's \<times> (status + rpc_reply)" where
  "reply_as f sr = (fst sr, map_sum id f (snd sr))"

definition serve :: "'s serverAPI \<Rightarrow> 's \<Rightarrow> rpc_call \<Rightarrow> 's \<times> (status + rpc_reply)" where
  "serve srv s c =
     (case c of
        CheckPermissionCall r \<Rightarrow> reply_as CheckPermissionReply (CheckPermission srv s r)
      | AddPermissionCall r \<Rightarrow> reply_as AddPermissionReply (AddPermission srv s r)
      | RemovePermissionCall r \<Rightarrow> reply_as RemovePermissionReply (Unimplemented_RemovePermission s r)
      | ListPermissionsCall r \<Rightarrow> reply_as ListPermissionsReply (ListPermissions srv s r))"

definition Register :: "'s PermissionsProvider \<Rightarrow> 's \<Rightarrow> rpc_call \<Rightarrow> 's \<times> (status + rpc_reply)" where
  "Register pm = serve \<lparr>permissions = pm\<rparr>"

section \<open>The validation contract\<close>

text \<open>
  Spec section 4.1 fixes the order of the checks: missing user id before
  missing permission before a permission outside the vocabulary, the first
  failing check deciding the answer. \<open>first_failure\<close> is that contract for
  any list of (check passes, status) pairs.
\<close>

fun first_failure :: "(bool \<times> status) list \<Rightarrow> status option" where
  "first_failure [] = None"
| "first_failure ((ok, st) # cs) = (if ok then first_failure cs else Some st)"

definition uid_required :: status where
  "uid_required = status_Error InvalidArgument ''user_id is required''"

definition perm_required :: status where
  "perm_required = status_Error InvalidArgument ''permission is required''"

definition invalid_permission :: status where
  "invalid_permission = status_Error InvalidArgument ''invalid permission''"

definition perm_checks :: "PermRequest \<Rightarrow> (bool \<times> status) list" where
  "perm_checks req =
     [(user_id req \<noteq> 0, uid_required), (permission req \<noteq> '''', perm_required),
      (permission req \<in> set AllPermissions, invalid_permission)]"

text \<open>The statuses a handler can answer with on its own: the three
  validation faults and the one internal error.\<close>

definition adapter_statuses :: "status list" where
  "adapter_statuses = [uid_required, perm_required, invalid_permission, internal_error]"

text \<open>What a handler makes of the service's answer on a valid request:
  any failure becomes the internal error, a result its response.\<close>

definition to_wire :: "('r \<Rightarrow> 'resp) \<Rightarrow> 's \<times> (go_error + 'r) \<Rightarrow> 's \<times> (status + 'resp)" where
  "to_wire f = apsnd (map_sum (\<lambda>_. internal_error) f)"

lemmas validate_defs = ValidateCheckPermission_def ValidateAddPermission_def
  ValidateRemovePermissions_def ValidateListPermissions_def empty_value_def
  uid_required_def perm_required_def invalid_permission_def

lemmas handler_defs = CheckPermission_def AddPermission_def RemovePermissionc_def
  ListPermissions_def

lemma perm_checks_None_iff:
  "first_failure (perm_checks req) = None \<longleftrightarrow>
   user_id req \<noteq> 0 \<and> permission req \<in> set AllPermissions"
  by (auto simp: perm_checks_def AllPermissions_def)

lemma perm_checks_Some:
  "first_failure (perm_checks req) = Some st \<Longrightarrow>
   ValidateCheckPermission req = Some st \<and> ValidateAddPermission req = Some st \<and>
   ValidateRemovePermissions req = Some st"
  by (auto simp: perm_checks_def validate_defs split: if_splits)

lemma Validate_None_iff:
  "ValidateCheckPermission req = None \<longleftrightarrow> user_id req \<noteq> 0 \<and> permission req \<in> set AllPermissions"
  "ValidateAddPermission req = None \<longleftrightarrow> user_id req \<noteq> 0 \<and> permission req \<in> set AllPermissions"
  "ValidateRemovePermissions req = None \<longleftrightarrow> user_id req \<noteq> 0 \<and> permission req \<in> set AllPermissions"
  "ValidateListPermissions lreq = None \<longleftrightarrow> list_user_id lreq \<noteq> 0"
  by (auto simp: validate_defs AllPermissions_def)

lemma handler_valid:
  "ValidateCheckPermission req = None \<Longrightarrow>
   CheckPermission srv s req = to_wire CheckPermissionResponse (m_CheckPerm (permissions srv) s (user_id req) (permission req))"
  "ValidateAddPermission req = None \<Longrightarrow>
   AddPermission srv s req = to_wire AddPermissionResponse (m_AddPerm (permissions srv) s (user_id req) (permission req))"
  "ValidateRemovePermissions req = None \<Longrightarrow>
   RemovePermissionc srv s req = to_wire RemovePermissionResponse (m_RemovePerm (permissions srv) s (user_id req) (permission req))"
  "ValidateListPermissions lreq = None \<Longrightarrow>
   ListPermissions srv s lreq = to_wire ListPermissionsResponse (m_ListPerm (permissions srv) s (list_user_id lreq))"
  by (auto simp: handler_defs to_wire_def split: prod.split sum.split)

lemma handler_invalid:
  "ValidateCheckPermission req = Some st \<Longrightarrow> CheckPermission srv s req = (s, Inl st)"
  "ValidateAddPermission req = Some st \<Longrightarrow> AddPermission srv s req = (s, Inl st)"
  "ValidateRemovePermissions req = Some st \<Longrightarrow> RemovePermissionc srv s req = (s, Inl st)"
  "ValidateListPermissions lreq = Some st \<Longrightarrow> ListPermissions srv s lreq = (s, Inl st)"
  by (simp_all add: handler_defs)

section \<open>Validation\<close>

text \<open>
  C1: the four validators implement the ordered contract: each is the first
  failure of its list of checks, and the three validators of requests with a
  permission (written out three times in the source) agree.
\<close>

theorem validators_ordered:
  "ValidateCheckPermission req = first_failure (perm_checks req) \<and>
   ValidateAddPermission req = first_failure (perm_checks req) \<and>
   ValidateRemovePermissions req = first_failure (perm_checks req) \<and>
   ValidateListPermissions lreq = first_failure [(list_user_id lreq \<noteq> 0, uid_required)]"
  by (simp add: validate_defs perm_checks_def)

section \<open>Handlers\<close>

text \<open>
  C2: a request whose user id is zero fails in every handler with
  \<open>InvalidArgument "user_id is required"\<close>, whatever its permission, and the
  state is untouched: the service is never called.
\<close>

theorem zero_uid_rejected:
  assumes "user_id req = 0" and "list_user_id lreq = 0"
  shows "CheckPermission srv s req = (s, Inl uid_required) \<and>
         AddPermission srv s req = (s, Inl uid_required) \<and>
         RemovePermissionc srv s req = (s, Inl uid_required) \<and>
         ListPermissions srv s lreq = (s, Inl uid_required)"
  using assms by (simp add: handler_defs validate_defs)

text \<open>
  C3: a non-empty permission outside the vocabulary, with a user id given,
  fails with \<open>InvalidArgument "invalid permission"\<close> before any call of the
  service: it never reaches persistence.
\<close>

theorem unknown_permission_rejected:
  assumes "user_id req \<noteq> 0" and "permission req \<noteq> ''''"
    and "permission req \<notin> set AllPermissions"
  shows "CheckPermission srv s req = (s, Inl invalid_permission) \<and>
         AddPermission srv s req = (s, Inl invalid_permission) \<and>
         RemovePermissionc srv s req = (s, Inl invalid_permission)"
  using assms by (simp add: handler_defs validate_defs)

text \<open>
  C4: on a valid request, any failure of the service, domain fault or not,
  becomes \<open>Internal "internal error"\<close>, with the service's new state kept.
\<close>

theorem service_failure_internal:
  assumes "user_id req \<noteq> 0" and "permission req \<in> set AllPermissions"
  shows "(m_CheckPerm (permissions srv) s (user_id req) (permission req) = (s', Inl e) \<longrightarrow>
           CheckPermission srv s req = (s', Inl internal_error)) \<and>
         (m_AddPerm (permissions srv) s (user_id req) (permission req) = (s', Inl e) \<longrightarrow>
           AddPermission srv s req = (s', Inl internal_error)) \<and>
         (m_RemovePerm (permissions srv) s (user_id req) (permission req) = (s', Inl e) \<longrightarrow>
           RemovePermissionc srv s req = (s', Inl internal_error)) \<and>
         (list_user_id lreq \<noteq> 0 \<longrightarrow>
          m_ListPerm (permissions srv) s (list_user_id lreq) = (s', Inl e) \<longrightarrow>
           ListPermissions srv s lreq = (s', Inl internal_error))"
  using assms by (auto simp: handler_defs validate_defs AllPermissions_def)

text \<open>
  C15: no cause leaks to the wire: every failure a handler answers is one of
  the four fixed statuses, whatever error the service returned.
\<close>

theorem adapter_status_closed:
  "case_sum (\<lambda>st. st \<in> set adapter_statuses) (\<lambda>_. True) (snd (CheckPermission srv s req)) \<and>
   case_sum (\<lambda>st. st \<in> set adapter_statuses) (\<lambda>_. True) (snd (AddPermission srv s req)) \<and>
   case_sum (\<lambda>st. st \<in> set adapter_statuses) (\<lambda>_. True) (snd (RemovePermissionc srv s req)) \<and>
   case_sum (\<lambda>st. st \<in> set adapter_statuses) (\<lambda>_. True) (snd (ListPermissions srv s lreq))"
  by (auto simp: handler_defs validate_defs adapter_statuses_def
      split: option.split prod.split sum.split)


section \<open>The registered method table\<close>

lemmas dispatch_defs = Register_def serve_def reply_as_def Unimplemented_RemovePermission_def

text \<open>
  C19: spec section 8 says that every operation with \<open>user_id = 0\<close> fails
  with the missing-user-id fault. Through the registered method table this
  holds for CheckPermission, AddPermission and ListPermissions, and fails for
  RemovePermission, which answers \<open>Unimplemented\<close> before any validation.
\<close>

theorem Register_zero_uid:
  assumes "user_id req = 0" and "list_user_id lreq = 0"
  shows "Register pm s (CheckPermissionCall req) = (s, Inl uid_required) \<and>
         Register pm s (AddPermissionCall req) = (s, Inl uid_required) \<and>
         Register pm s (ListPermissionsCall lreq) = (s, Inl uid_required) \<and>
         Register pm s (RemovePermissionCall req) =
           (s, Inl (status_Error Unimplemented ''method RemovePermission not implemented'')) \<and>
         uid_required \<noteq> status_Error Unimplemented ''method RemovePermission not implemented''"
  using assms by (simp add: dispatch_defs handler_defs validate_defs status_Error_def)

text \<open>
  C20: bounds of the user id check: of the \<open>2^64\<close> values of an \<open>int64\<close>,
  exactly one (zero) is rejected, so \<open>2^64 - 1\<close> ids pass, the negative ones
  included: \<open>-1\<close>, read as a signed 64-bit integer, is accepted as a user id.
\<close>

theorem accepted_uid_bounds:
  "card {u :: int64. ValidateListPermissions \<lparr>list_user_id = u\<rparr> = None} = 2 ^ 64 - 1 \<and>
   sint (-1 :: int64) = -1 \<and>
   ValidateCheckPermission \<lparr>user_id = -1, permission = ''read''\<rparr> = None"
proof -
  have "{u :: int64. ValidateListPermissions \<lparr>list_user_id = u\<rparr> = None} = UNIV - {0}"
    by (auto simp: Validate_None_iff)
  then have "card {u :: int64. ValidateListPermissions \<lparr>list_user_id = u\<rparr> = None} = 2 ^ 64 - 1"
    by (simp add: card_word)
  then show ?thesis by (simp add: validate_defs AllPermissions_def)
qed

end
