(* ===== verification/Provider.thy ===== *)
theory Provider
  imports Service
begin

text \<open>
  The persistence provider is outside the repository's sources: the service
  consumes it only through \<open>PermissionsProvider\<close>. This theory states what
  spec section 4.3 asks of it, as a relation between an abstract grant map
  (user \<open>\<mapsto>\<close> set of permissions, \<open>None\<close> for an unknown user) and each
  method's outcome, and gives an in-memory provider that meets it. The
  cross-component theorems of the root theory are stated for any provider
  that meets the contract; the in-memory provider discharges it and gives
  the concrete instances the witnesses evaluate.
\<close>

section \<open>The contract\<close>

type_synonym agrants = "int64 \<Rightarrow> string set option"

text \<open>A failure "reports" a sentinel when the sentinel is its root cause,
  that is when \<open>errors.Is\<close> finds it: the provider may wrap it.\<close>

definition reports :: "go_error + 'a \<Rightarrow> go_error \<Rightarrow> bool" where
  "reports r e = (case r of Inl err \<Rightarrow> err_root err = e | Inr _ \<Rightarrow> False)"

text \<open>add: an unknown user is reported; otherwise the grant is recorded and
  \<open>true\<close> answered, or, for a grant already present, the provider may instead
  report that it exists (idempotency is not assumed).\<close>

definition add_spec :: "agrants \<Rightarrow> int64 \<Rightarrow> string \<Rightarrow> agrants \<times> (go_error + bool) \<Rightarrow> bool" where
  "add_spec g u p res =
     (case g u of
        None \<Rightarrow> fst res = g \<and> reports (snd res) ErrUserNotFound
      | Some S \<Rightarrow> (fst res = g(u \<mapsto> insert p S) \<and> snd res = Inr True) \<or>
                  (p \<in> S \<and> fst res = g \<and> reports (snd res) ErrPermissionExists))"

definition remove_spec :: "agrants \<Rightarrow> int64 \<Rightarrow> string \<Rightarrow> agrants \<times> (go_error + bool) \<Rightarrow> bool" where
  "remove_spec g u p res =
     (case g u of
        None \<Rightarrow> fst res = g \<and> reports (snd res) ErrUserNotFound
      | Some S \<Rightarrow> if p \<in> S then fst res = g(u \<mapsto> S - {p}) \<and> snd res = Inr True
                  else fst res = g \<and> reports (snd res) ErrPermissionNotFound)"

definition check_spec :: "agrants \<Rightarrow> int64 \<Rightarrow> string \<Rightarrow> agrants \<times> (go_error + bool) \<Rightarrow> bool" where
  "check_spec g u p res =
     (fst res = g \<and>
      (case g u of
         None \<Rightarrow> reports (snd res) ErrUserNotFound
       | Some S \<Rightarrow> snd res = Inr (p \<in> S)))"

text \<open>list: an unknown user may be reported or answered with the empty list
  (the open question of the spec); a known user's grants come back as a list.\<close>

definition list_spec :: "agrants \<Rightarrow> int64 \<Rightarrow> agrants \<times> (go_error + string list) \<Rightarrow> bool" where
  "list_spec g u res =
     (fst res = g \<and>
      (case g u of
         None \<Rightarrow> reports (snd res) ErrUserNotFound \<or> snd res = Inr []
       | Some S \<Rightarrow> (\<exists>xs. snd res = Inr xs \<and> set xs = S)))"

definition provider_contract :: "'s PermissionsProvider \<Rightarrow> ('s \<Rightarrow> agrants) \<Rightarrow> bool" where
  "provider_contract P \<alpha> \<longleftrightarrow>
     (\<forall>s u p. add_spec (\<alpha> s) u p (apfst \<alpha> (m_AddPerm P s u p)) \<and>
              remove_spec (\<alpha> s) u p (apfst \<alpha> (m_RemovePerm P s u p)) \<and>
              check_spec (\<alpha> s) u p (apfst \<alpha> (m_CheckPerm P s u p))) \<and>
     (\<forall>s u. list_spec (\<alpha> s) u (apfst \<alpha> (m_ListPerm P s u)))"

section \<open>An in-memory provider\<close>

text \<open>
  Grants kept per user in an association list, each user's permissions in
  the order granted. Users are created elsewhere (by the authentication
  service), modelled by \<open>mem_add_user\<close>. Failures are reported with the
  service's sentinels, the convention under which the service recognises
  them.
\<close>

record MemStore =
  grants :: "(int64 \<times> string list) list"

definition mem_AddPerm :: "MemStore \<Rightarrow> int64 \<Rightarrow> string \<Rightarrow> MemStore \<times> (go_error + bool)" where
  "mem_AddPerm st u p =
     (case map_of (grants st) u of
        None \<Rightarrow> (st, Inl ErrUserNotFound)
      | Some ps \<Rightarrow> if p \<in> set ps then (st, Inl ErrPermissionExists)
                   else (st\<lparr>grants := AList.update u (ps @ [p]) (grants st)\<rparr>, Inr True))"

definition mem_RemovePerm :: "MemStore \<Rightarrow> int64 \<Rightarrow> string \<Rightarrow> MemStore \<times> (go_error + bool)" where
  "mem_RemovePerm st u p =
     (case map_of (grants st) u of
        None \<Rightarrow> (st, Inl ErrUserNotFound)
      | Some ps \<Rightarrow> if p \<notin> set ps then (st, Inl ErrPermissionNotFound)
                   else (st\<lparr>grants := AList.update u (removeAll p ps) (grants st)\<rparr>, Inr True))"

definition mem_CheckPerm :: "MemStore \<Rightarrow> int64 \<Rightarrow> string \<Rightarrow> MemStore \<times> (go_error + bool)" where
  "mem_CheckPerm st u p =
     (case map_of (grants st) u of
        None \<Rightarrow> (st, Inl ErrUserNotFound)
      | Some ps \<Rightarrow> (st, Inr (p \<in> set ps)))"

definition mem_ListPerm :: "MemStore \<Rightarrow> int64 \<Rightarrow> MemStore \<times> (go_error + string list)" where
  "mem_ListPerm st u =
     (case map_of (grants st) u of
        None \<Rightarrow> (st, Inl ErrUserNotFound)
      | Some ps \<Rightarrow> (st, Inr ps))"

definition mem_provider :: "MemStore PermissionsProvider" where
  "mem_provider = \<lparr>m_AddPerm = mem_AddPerm, m_RemovePerm = mem_RemovePerm,
                   m_CheckPerm = mem_CheckPerm, m_ListPerm = mem_ListPerm\<rparr>"

definition mem_add_user :: "int64 \<Rightarrow> MemStore \<Rightarrow> MemStore" where
  "mem_add_user u st =
     (case map_of (grants st) u of
        None \<Rightarrow> st\<lparr>grants := AList.update u [] (grants st)\<rparr>
      | Some _ \<Rightarrow> st)"

text \<open>The abstraction: each user's list read as a set.\<close>

definition mem_abs :: "MemStore \<Rightarrow> agrants" where
  "mem_abs st = (\<lambda>u. map_option set (map_of (grants st) u))"

text \<open>The store invariant the adapter's validation is meant to protect: every
  recorded user id is non-zero and every recorded permission is a distinct
  member of the vocabulary.\<close>

definition mem_inv :: "MemStore \<Rightarrow> bool" where
  "mem_inv st =
     list_all (\<lambda>(u, ps). u \<noteq> 0 \<and> set ps \<subseteq> set AllPermissions \<and> distinct ps) (grants st)"

lemmas mem_defs [model_defs] = mem_AddPerm_def mem_RemovePerm_def mem_CheckPerm_def
  mem_ListPerm_def mem_add_user_def

lemma mem_provider_simps [simp, iface_simps]:
  "m_AddPerm mem_provider = mem_AddPerm" "m_RemovePerm mem_provider = mem_RemovePerm"
  "m_CheckPerm mem_provider = mem_CheckPerm" "m_ListPerm mem_provider = mem_ListPerm"
  by (simp_all add: mem_provider_def)

lemma mem_abs_update [simp]:
  "mem_abs (st\<lparr>grants := AList.update u ps (grants st)\<rparr>) = (mem_abs st)(u \<mapsto> set ps)"
  by (auto simp: mem_abs_def update_conv')

lemma mem_abs_lookup: "mem_abs st u = map_option set (map_of (grants st) u)"
  by (simp add: mem_abs_def)

section \<open>What a client may rely on\<close>

text \<open>The contract read method by method, for the clients of the interface:
  the adapter only distinguishes failure from success, so \<open>reports\<close>
  weakens to \<open>isl\<close>.\<close>

lemma contract_D:
  assumes "provider_contract P \<alpha>"
  shows "add_spec (\<alpha> s) u p (apfst \<alpha> (m_AddPerm P s u p)) \<and>
         remove_spec (\<alpha> s) u p (apfst \<alpha> (m_RemovePerm P s u p)) \<and>
         check_spec (\<alpha> s) u p (apfst \<alpha> (m_CheckPerm P s u p)) \<and>
         list_spec (\<alpha> s) u (apfst \<alpha> (m_ListPerm P s u))"
  using assms by (simp add: provider_contract_def)

lemma contract_add:
  assumes "provider_contract P \<alpha>" and "m_AddPerm P s u p = (s', r)"
  shows "case \<alpha> s u of None \<Rightarrow> \<alpha> s' = \<alpha> s \<and> isl r
         | Some S \<Rightarrow> (\<alpha> s' = (\<alpha> s)(u \<mapsto> insert p S) \<and> r = Inr True) \<or> (p \<in> S \<and> \<alpha> s' = \<alpha> s \<and> isl r)"
proof -
  from contract_D [OF assms(1), of s u p] assms(2)
  have "add_spec (\<alpha> s) u p (\<alpha> s', r)" by simp
  then show ?thesis
    by (auto simp: add_spec_def reports_def split: option.splits sum.splits)
qed

lemma contract_remove:
  assumes "provider_contract P \<alpha>" and "m_RemovePerm P s u p = (s', r)"
  shows "case \<alpha> s u of None \<Rightarrow> \<alpha> s' = \<alpha> s \<and> isl r
         | Some S \<Rightarrow> if p \<in> S then \<alpha> s' = (\<alpha> s)(u \<mapsto> S - {p}) \<and> r = Inr True
                     else \<alpha> s' = \<alpha> s \<and> isl r"
proof -
  from contract_D [OF assms(1), of s u p] assms(2)
  have "remove_spec (\<alpha> s) u p (\<alpha> s', r)" by simp
  then show ?thesis
    by (auto simp: remove_spec_def reports_def split: option.splits sum.splits)
qed

lemma contract_check:
  assumes "provider_contract P \<alpha>" and "m_CheckPerm P s u p = (s', r)"
  shows "\<alpha> s' = \<alpha> s \<and> (case \<alpha> s u of None \<Rightarrow> isl r | Some S \<Rightarrow> r = Inr (p \<in> S))"
proof -
  from contract_D [OF assms(1), of s u p] assms(2)
  have "check_spec (\<alpha> s) u p (\<alpha> s', r)" by simp
  then show ?thesis
    by (auto simp: check_spec_def reports_def split: option.splits sum.splits)
qed

section \<open>The in-memory provider meets the contract\<close>

lemmas mem_spec_unfold = mem_abs_lookup reports_def service_errors

lemma mem_add_spec: "add_spec (mem_abs st) u p (apfst mem_abs (mem_AddPerm st u p))"
  by (auto simp: add_spec_def mem_AddPerm_def mem_spec_unfold split: option.split)

lemma mem_remove_spec: "remove_spec (mem_abs st) u p (apfst mem_abs (mem_RemovePerm st u p))"
  by (auto simp: remove_spec_def mem_RemovePerm_def mem_spec_unfold split: option.split)

lemma mem_check_spec: "check_spec (mem_abs st) u p (apfst mem_abs (mem_CheckPerm st u p))"
  by (auto simp: check_spec_def mem_CheckPerm_def mem_spec_unfold split: option.split)

lemma mem_list_spec: "list_spec (mem_abs st) u (apfst mem_abs (mem_ListPerm st u))"
  by (auto simp: list_spec_def mem_ListPerm_def mem_spec_unfold split: option.split)

text \<open>The in-memory provider implements the provider contract of spec
  section 4.3 under the abstraction that reads each user's list as a set.\<close>

lemma mem_provider_contract: "provider_contract mem_provider mem_abs"
  by (simp add: provider_contract_def mem_add_spec mem_remove_spec mem_check_spec mem_list_spec)


section \<open>The store invariant under the provider's writes\<close>

lemma mem_inv_lookup:
  "mem_inv st \<Longrightarrow> map_of (grants st) u = Some ps \<Longrightarrow>
   u \<noteq> 0 \<and> set ps \<subseteq> set AllPermissions \<and> distinct ps"
  by (auto simp: mem_inv_def list_all_iff dest: map_of_SomeD)

lemma mem_inv_AddPerm:
  assumes inv: "mem_inv st" and p: "p \<in> set AllPermissions"
  shows "mem_inv (fst (mem_AddPerm st u p))"
proof (cases "map_of (grants st) u")
  case None
  then show ?thesis using inv by (simp add: mem_AddPerm_def)
next
  case (Some ps)
  with inv have "u \<noteq> 0 \<and> set ps \<subseteq> set AllPermissions \<and> distinct ps"
    by (rule mem_inv_lookup)
  with inv p Some show ?thesis
    by (auto simp: mem_AddPerm_def mem_inv_def intro!: list_all_update)
qed

lemma mem_inv_RemovePerm:
  assumes inv: "mem_inv st"
  shows "mem_inv (fst (mem_RemovePerm st u p))"
proof (cases "map_of (grants st) u")
  case None
  then show ?thesis using inv by (simp add: mem_RemovePerm_def)
next
  case (Some ps)
  with inv have "u \<noteq> 0 \<and> set ps \<subseteq> set AllPermissions \<and> distinct ps"
    by (rule mem_inv_lookup)
  with inv Some show ?thesis
    by (auto simp: mem_RemovePerm_def mem_inv_def distinct_removeAll intro!: list_all_update)
qed

lemma mem_inv_add_user:
  assumes "mem_inv st" and "u \<noteq> 0"
  shows "mem_inv (mem_add_user u st)"
  using assms
  by (auto simp: mem_add_user_def mem_inv_def intro!: list_all_update split: option.split)

end
