(* ===== verification/Stack.thy ===== *)
theory Stack
  imports Server Provider
begin

text \<open>
  The components wired together: the adapter of \<^theory_text>\<open>Server\<close> over
  the service of \<^theory_text>\<open>Service\<close> over a provider, and one step of
  the registered server, \<open>Register (as_iface (New L P))\<close>, read off
  layer by layer: which provider method a valid request reaches, what
  becomes of the provider's state, and that the audit log only grows. The
  last section measures the service, which implements the provider's
  interface itself, against the provider contract of \<^theory_text>\<open>Provider\<close>.
\<close>

section \<open>The wired stack\<close>

text \<open>The adapter over the service over a provider, as spec section 2's
  control flow composes them (the sources contain no such wiring).\<close>

definition permissions_server :: "Logger \<Rightarrow> 'p PermissionsProvider \<Rightarrow> 'p World serverAPI" where
  "permissions_server L P = \<lparr>permissions = as_iface (New L P)\<rparr>"

text \<open>A sequence of requests served one after the other, each from the
  world the previous one left.\<close>

fun run :: "('w \<Rightarrow> 'c \<Rightarrow> 'w \<times> 'r) \<Rightarrow> 'w \<Rightarrow> 'c list \<Rightarrow> 'w \<times> 'r list" where
  "run f w [] = (w, [])"
| "run f w (c # cs) = (case f w c of (w', r) \<Rightarrow> (case run f w' cs of (w'', rs) \<Rightarrow> (w'', r # rs)))"

text \<open>The effect of one RPC of the registered server on the abstract grant
  map, as the provider contract and the code together fix it: a valid add on
  a known user inserts the grant; nothing else changes the map (checks only
  read, RemovePermission is never reached, ListPermissions never calls the
  provider).\<close>

definition add_effect :: "agrants \<Rightarrow> PermRequest \<Rightarrow> agrants" where
  "add_effect g req =
     (case g (user_id req) of
        None \<Rightarrow> g
      | Some S \<Rightarrow> if first_failure (perm_checks req) = None
                  then g(user_id req \<mapsto> insert (permission req) S) else g)"

fun rpc_effect :: "agrants \<Rightarrow> rpc_call \<Rightarrow> agrants" where
  "rpc_effect g (AddPermissionCall req) = add_effect g req"
| "rpc_effect g c = g"

section \<open>The stack, layer by layer\<close>

lemma run_fst: "fst (run f w (c # cs)) = fst (run f (fst (f w c)) cs)"
  by (simp split: prod.split)

lemma permissions_server_simps [simp]:
  "permissions (permissions_server L P) = as_iface (New L P)"
  by (simp add: permissions_server_def)

text \<open>A valid request through the adapter and the service: the provider's
  new state is the world's, and the provider's outcome decides the answer.\<close>

lemma stack_handler:
  assumes "user_id req \<noteq> 0" and "permission req \<in> set AllPermissions"
  shows "m_CheckPerm P (pstate w) (user_id req) (permission req) = (s', r) \<Longrightarrow>
           pstate (fst (CheckPermission (permissions_server L P) w req)) = s' \<and>
           snd (CheckPermission (permissions_server L P) w req) =
             map_sum (\<lambda>_. internal_error) CheckPermissionResponse r"
    and "m_AddPerm P (pstate w) (user_id req) (permission req) = (s', r) \<Longrightarrow>
           pstate (fst (AddPermission (permissions_server L P) w req)) = s' \<and>
           snd (AddPermission (permissions_server L P) w req) =
             map_sum (\<lambda>_. internal_error) AddPermissionResponse r"
    and "m_RemovePerm P (pstate w) (user_id req) (permission req) = (s', r) \<Longrightarrow>
           pstate (fst (RemovePermissionc (permissions_server L P) w req)) = s' \<and>
           snd (RemovePermissionc (permissions_server L P) w req) =
             map_sum (\<lambda>_. internal_error) RemovePermissionResponse r"
  using assms svc_op_result [of OpCheck "New L P" w "user_id req" "permission req" s' r]
    svc_op_result [of OpAdd "New L P" w "user_id req" "permission req" s' r]
    svc_op_result [of OpRemove "New L P" w "user_id req" "permission req" s' r]
  by (simp_all add: handler_valid Validate_None_iff to_wire_def map_sum.compositionality comp_def)

section \<open>One step of the registered server\<close>

lemmas stack_unfold = dispatch_defs to_wire_def ListPerm_def

lemma Register_pstate:
  "pstate (fst (Register (as_iface (New L P)) w c)) =
     (case c of
        CheckPermissionCall req \<Rightarrow>
          if ValidateCheckPermission req = None
          then fst (m_CheckPerm P (pstate w) (user_id req) (permission req)) else pstate w
      | AddPermissionCall req \<Rightarrow>
          if ValidateAddPermission req = None
          then fst (m_AddPerm P (pstate w) (user_id req) (permission req)) else pstate w
      | RemovePermissionCall req \<Rightarrow> pstate w
      | ListPermissionsCall lreq \<Rightarrow> pstate w)"
proof (cases c)
  case (CheckPermissionCall req)
  then show ?thesis using svc_op_pstate [of OpCheck "New L P" w]
    by (cases "ValidateCheckPermission req") (simp_all add: stack_unfold handler_valid handler_invalid)
next
  case (AddPermissionCall req)
  then show ?thesis using svc_op_pstate [of OpAdd "New L P" w]
    by (cases "ValidateAddPermission req") (simp_all add: stack_unfold handler_valid handler_invalid)
next
  case (RemovePermissionCall req)
  then show ?thesis by (simp add: stack_unfold)
next
  case (ListPermissionsCall lreq)
  then show ?thesis
    by (cases "ValidateListPermissions lreq") (simp_all add: stack_unfold handler_valid handler_invalid)
qed

lemma mem_inv_stack_step:
  assumes "mem_inv (pstate w)"
  shows "mem_inv (pstate (fst (Register (as_iface (New L mem_provider)) w c)))"
  using assms mem_inv_AddPerm [of "pstate w"]
  by (auto simp: Register_pstate Validate_None_iff mem_CheckPerm_def
      split: rpc_call.split option.split)

section \<open>The service against the provider contract\<close>

text \<open>The service's rewriting of a failure keeps its root cause, so it keeps
  what the provider reports.\<close>

lemma reports_svc:
  "reports (map_sum (\<lambda>e. if is_domain_fault k e then fmt_Errorf_w (op_name k) (err_root e) else e) id r) x =
   reports r x"
  by (cases r) (simp_all add: reports_def)

lemma svc_op_spec:
  assumes "prov_op k P (pstate w) u q = (s', r)"
  shows "apfst (\<alpha> \<circ> pstate) (svc_op k (New L P) w u q) =
           (\<alpha> s', map_sum (\<lambda>e. if is_domain_fault k e then fmt_Errorf_w (op_name k) (err_root e) else e) id r)"
  using svc_op_result [of k "New L P" w u q s' r] assms
  by (cases "svc_op k (New L P) w u q") simp

text \<open>
  C23: the service is a provider too (it implements the same interface),
  and it refines the provider contract for add, remove and check: over any
  provider that meets the contract under an abstraction \<open>\<alpha>\<close>, the service
  meets it under \<open>\<alpha> \<circ> pstate\<close>; wrapping a domain fault with the
  operation tag keeps what it reports.
\<close>

theorem service_meets_contract:
  assumes "provider_contract P \<alpha>"
  shows "add_spec (\<alpha> (pstate w)) u q (apfst (\<alpha> \<circ> pstate) (AddPerm (New L P) w u q)) \<and>
         remove_spec (\<alpha> (pstate w)) u q (apfst (\<alpha> \<circ> pstate) (RemovePerm (New L P) w u q)) \<and>
         check_spec (\<alpha> (pstate w)) u q (apfst (\<alpha> \<circ> pstate) (CheckPerm (New L P) w u q))"
proof -
  obtain sa ra where a: "m_AddPerm P (pstate w) u q = (sa, ra)" by fastforce
  obtain sr rr where r: "m_RemovePerm P (pstate w) u q = (sr, rr)" by fastforce
  obtain sc rc where c: "m_CheckPerm P (pstate w) u q = (sc, rc)" by fastforce
  from contract_D [OF assms, of "pstate w" u q] a r c
  have "add_spec (\<alpha> (pstate w)) u q (\<alpha> sa, ra)" "remove_spec (\<alpha> (pstate w)) u q (\<alpha> sr, rr)"
    "check_spec (\<alpha> (pstate w)) u q (\<alpha> sc, rc)" by simp_all
  moreover note svc_op_spec [of OpAdd P w u q sa ra \<alpha> L] svc_op_spec [of OpRemove P w u q sr rr \<alpha> L]
    svc_op_spec [of OpCheck P w u q sc rc \<alpha> L]
  ultimately show ?thesis using a r c
    by (auto simp: add_spec_def remove_spec_def check_spec_def reports_svc
        split: option.splits sum.splits if_splits)
qed

text \<open>
  C24: \<open>ListPerm\<close> does not: for any user whose grants are known and are not
  exactly \<open>{"reed"}\<close>, the service's answer violates the list contract, which
  asks for the user's grants.
\<close>

theorem ListPerm_violates_list_spec:
  assumes "\<alpha> (pstate w) u = Some S" and "S \<noteq> {''reed''}"
  shows "\<not> list_spec (\<alpha> (pstate w)) u (apfst (\<alpha> \<circ> pstate) (ListPerm p w u))"
  using assms by (simp add: list_spec_def ListPerm_def)

section \<open>The registered server on the abstract grant map\<close>

lemma Register_abs:
  assumes "provider_contract P \<alpha>"
  shows "\<alpha> (pstate (fst (Register (as_iface (New L P)) w c))) = rpc_effect (\<alpha> (pstate w)) c"
proof (cases c)
  case (CheckPermissionCall req)
  obtain s' r where "m_CheckPerm P (pstate w) (user_id req) (permission req) = (s', r)" by fastforce
  with contract_check [OF assms this] CheckPermissionCall show ?thesis
    by (simp add: Register_pstate)
next
  case (AddPermissionCall req)
  obtain s' r where pr: "m_AddPerm P (pstate w) (user_id req) (permission req) = (s', r)" by fastforce
  show ?thesis
  proof (cases "ValidateAddPermission req")
    case None
    then have "first_failure (perm_checks req) = None"
      by (simp add: Validate_None_iff perm_checks_None_iff)
    with contract_add [OF assms pr] pr None AddPermissionCall show ?thesis
      by (auto simp: Register_pstate add_effect_def fun_upd_idem insert_absorb split: option.splits)
  next
    case (Some st)
    then have "first_failure (perm_checks req) \<noteq> None"
      using Validate_None_iff(2) [of req] perm_checks_None_iff [of req] by auto
    with Some AddPermissionCall show ?thesis
      by (auto simp: Register_pstate add_effect_def split: option.splits)
  qed
qed (simp_all add: Register_pstate)

lemma add_effect_commute: "add_effect (add_effect g r1) r2 = add_effect (add_effect g r2) r1"
  by (auto simp: add_effect_def fun_eq_iff insert_commute split: option.splits)

lemma rpc_effect_commute: "rpc_effect (rpc_effect g c1) c2 = rpc_effect (rpc_effect g c2) c1"
  by (cases c1; cases c2) (simp_all add: add_effect_commute)

lemma rpc_effect_idem: "rpc_effect (rpc_effect g c) c = rpc_effect g c"
  by (cases c) (auto simp: add_effect_def split: option.splits)

lemma rpc_effect_mono: "g u = Some S \<Longrightarrow> \<exists>S'. rpc_effect g c u = Some S' \<and> S \<subseteq> S'"
  by (cases c) (auto simp: add_effect_def split: option.splits)

section \<open>Properties of the registered server over any provider\<close>

text \<open>
  C27: over any provider that meets the contract, the registered server
  only ever adds grants: no RPC removes a grant or forgets a user (the
  RemovePermission RPC never reaches the provider); repeating an RPC has the
  effect of doing it once; and two RPCs have the same effect on the grants in
  either order.
\<close>

theorem server_grant_laws:
  assumes "provider_contract P \<alpha>"
  shows "(\<alpha> (pstate w) u = Some S \<longrightarrow>
            (\<exists>S'. \<alpha> (pstate (fst (Register (as_iface (New L P)) w c))) u = Some S' \<and> S \<subseteq> S')) \<and>
         \<alpha> (pstate (fst (Register (as_iface (New L P)) (fst (Register (as_iface (New L P)) w c)) c))) =
           \<alpha> (pstate (fst (Register (as_iface (New L P)) w c))) \<and>
         \<alpha> (pstate (fst (Register (as_iface (New L P)) (fst (Register (as_iface (New L P)) w c1)) c2))) =
           \<alpha> (pstate (fst (Register (as_iface (New L P)) (fst (Register (as_iface (New L P)) w c2)) c1)))"
  using rpc_effect_mono [of "\<alpha> (pstate w)" u S c]
  by (simp add: Register_abs [OF assms] rpc_effect_idem rpc_effect_commute)

text \<open>
  C29: cancellation (spec section 5) on a valid check or add: when the
  provider fails because the call's context was cancelled or its deadline
  passed, the service passes the error on unchanged and its last audit
  record is at Error, as for an infrastructure fault (with any logger that
  lets Error through), and the caller receives \<open>Internal "internal
  error"\<close>, not \<open>Canceled\<close> or \<open>DeadlineExceeded\<close>.
\<close>

theorem cancellation_is_internal:
  assumes "user_id req \<noteq> 0" and "permission req \<in> set AllPermissions"
    and "err_root e = context_Canceled \<or> err_root e = context_DeadlineExceeded"
    and "handler_level L \<le> LevelError"
  shows "(m_CheckPerm P (pstate w) (user_id req) (permission req) = (s', Inl e) \<longrightarrow>
           snd (CheckPerm (New L P) w (user_id req) (permission req)) = Inl e \<and>
           rec_level (last (out (fst (CheckPerm (New L P) w (user_id req) (permission req))))) = LevelError \<and>
           snd (Register (as_iface (New L P)) w (CheckPermissionCall req)) = Inl internal_error) \<and>
         (m_AddPerm P (pstate w) (user_id req) (permission req) = (s', Inl e) \<longrightarrow>
           snd (AddPerm (New L P) w (user_id req) (permission req)) = Inl e \<and>
           rec_level (last (out (fst (AddPerm (New L P) w (user_id req) (permission req))))) = LevelError \<and>
           snd (Register (as_iface (New L P)) w (AddPermissionCall req)) = Inl internal_error) \<and>
         code internal_error = Internal"
proof -
  have nd: "\<not> errors_Is e ErrUserNotFound" "\<not> errors_Is e ErrPermissionExists"
    using assms(3) by (auto simp: service_errors context_errors)
  have v: "ValidateCheckPermission req = None" "ValidateAddPermission req = None"
    using assms(1,2) by (simp_all add: Validate_None_iff)
  show ?thesis
    using nd assms(4) stack_handler [OF assms(1,2), of P w s' "Inl e" L]
    by (auto simp: svc_unfold op_logger_def logging_defs level_defs stack_unfold handler_valid v internal_error_def
        status_Error_def permissions_server_def)
qed

end
