(* ===== verification/Concurrency.thy ===== *)
theory Concurrency
  imports Stack
begin

text \<open>
  Concurrent requests (spec section 5). grpc-go serves every RPC on its own
  goroutine and the sources take no lock: the service and the adapter keep no
  state of their own, so requests interact only through the provider's state
  and the shared log. A request is a thread whose atomic steps are the
  effects on that shared state, in the order the sources perform them:
  \<^item> validation and the "attempting" record (\<open>TStart\<close> to \<open>TCall\<close>;
    validation reads only the request, so joining it to the record loses no
    interleaving), or the whole RPC when it calls no provider (RemovePermission
    reaches the Unimplemented stub, ListPermissions the constant \<open>ListPerm\<close>);
  \<^item> the provider call, atomic on the provider's state (\<open>TCall\<close> to
    \<open>TFinish\<close>);
  \<^item> the outcome records and the reply (\<open>TFinish\<close> to \<open>TDone\<close>).
  A configuration is the list of the requests' phases and the world;
  \<open>cstep\<close> runs the next step of any unanswered request, and
  \<open>sched_exec\<close> runs a schedule given as a list of request indices. The
  records a request writes after its provider call are written in one step:
  slog handlers serialise each record, and what the claims below read of the
  log does not depend on records of other requests between them.
\<close>

section \<open>The service's operations in phases\<close>

text \<open>The body of \<open>AddPerm\<close>, \<open>RemovePerm\<close> and \<open>CheckPerm\<close> after the
  provider call, read as data: the chain of \<open>errors.Is\<close> tests in source
  order with the message each logs at Warn (\<open>fault_table\<close>, walked by
  \<open>fault_chain\<close>), the Error message of the fall-through, and the success
  records. \<open>svc_op_phases\<close> below shows the split is the operation.\<close>

primrec fault_table :: "op_kind \<Rightarrow> (go_error \<times> string) list" where
  "fault_table OpAdd = [(ErrUserNotFound, ''user not found''), (ErrPermissionExists, ''permission already exists'')]"
| "fault_table OpRemove = [(ErrUserNotFound, ''user not found''), (ErrPermissionNotFound, ''permission not found'')]"
| "fault_table OpCheck = [(ErrUserNotFound, ''user not found'')]"

primrec fail_msg :: "op_kind \<Rightarrow> string" where
  "fail_msg OpAdd = ''failed to add permission''"
| "fail_msg OpRemove = ''failed to remove permission''"
| "fail_msg OpCheck = ''failed to check permission''"

fun fault_chain :: "Logger \<Rightarrow> string \<Rightarrow> (go_error \<times> string) list \<Rightarrow> string \<Rightarrow> go_error \<Rightarrow> sink \<Rightarrow> sink \<times> go_error" where
  "fault_chain lg op [] fmsg err o1 = (Logger_Error lg fmsg [sl_Err err] o1, err)"
| "fault_chain lg op ((e, m) # rest) fmsg err o1 =
     (if errors_Is err e then (Logger_Warn lg m [sl_Err err] o1, fmt_Errorf_w op e)
      else fault_chain lg op rest fmsg err o1)"

primrec success_log :: "op_kind \<Rightarrow> Logger \<Rightarrow> bool \<Rightarrow> sink \<Rightarrow> sink" where
  "success_log OpAdd lg res o1 = Logger_Info lg ''permission added successfully'' [] o1"
| "success_log OpRemove lg res o1 = Logger_Info lg ''permission removed successfully'' [] o1"
| "success_log OpCheck lg res o1 =
     (let o2 = Logger_Info lg ''permission checked successfully'' [] o1
      in if res then Logger_Info lg ''user has permission'' [] o2
         else Logger_Info lg ''user does not have permission'' [] o2)"

definition svc_attempt :: "op_kind \<Rightarrow> 'p Permissions \<Rightarrow> int64 \<Rightarrow> string \<Rightarrow> sink \<Rightarrow> sink" where
  "svc_attempt k p uid q o0 = Logger_Info (op_logger p (op_name k) uid q) (attempt_msg k) [] o0"

definition svc_outcome ::
  "op_kind \<Rightarrow> 'p Permissions \<Rightarrow> int64 \<Rightarrow> string \<Rightarrow> go_error + bool \<Rightarrow> sink \<Rightarrow> sink \<times> (go_error + bool)" where
  "svc_outcome k p uid q r o1 =
     (let lg = op_logger p (op_name k) uid q
      in case r of
           Inl err \<Rightarrow> apsnd Inl (fault_chain lg (op_name k) (fault_table k) (fail_msg k) err o1)
         | Inr res \<Rightarrow> (success_log k lg res o1, Inr res))"

text \<open>The message of the record a failure is logged with: the first entry
  of the chain whose sentinel \<open>errors.Is\<close> finds, else the Error message.\<close>

definition fault_msg :: "op_kind \<Rightarrow> go_error \<Rightarrow> string" where
  "fault_msg k e =
     (case find (\<lambda>(s, m). errors_Is e s) (fault_table k) of Some (s, m) \<Rightarrow> m | None \<Rightarrow> fail_msg k)"

section \<open>Requests as threads\<close>

text \<open>A request's phase. \<open>TCall\<close> and \<open>TFinish\<close> carry the operation the
  handler is in and its request; \<open>TDone\<close> the reply on the wire.\<close>

datatype tphase =
    TStart rpc_call
  | TCall op_kind PermRequest
  | TFinish op_kind PermRequest "go_error + bool"
  | TDone "status + rpc_reply"

primrec is_done :: "tphase \<Rightarrow> bool" where
  "is_done (TStart c) = False"
| "is_done (TCall k req) = False"
| "is_done (TFinish k req r) = False"
| "is_done (TDone r) = True"

text \<open>Which handler calls the service: check and add do; the registered server
  sends RemovePermission to the Unimplemented stub and ListPermissions never
  reaches the provider.\<close>

fun call_op :: "rpc_call \<Rightarrow> (op_kind \<times> PermRequest) option" where
  "call_op (CheckPermissionCall req) = Some (OpCheck, req)"
| "call_op (AddPermissionCall req) = Some (OpAdd, req)"
| "call_op (RemovePermissionCall req) = None"
| "call_op (ListPermissionsCall lreq) = None"

primrec validate_op :: "op_kind \<Rightarrow> PermRequest \<Rightarrow> status option" where
  "validate_op OpCheck = ValidateCheckPermission"
| "validate_op OpAdd = ValidateAddPermission"
| "validate_op OpRemove = ValidateRemovePermissions"

primrec reply_of :: "op_kind \<Rightarrow> bool \<Rightarrow> rpc_reply" where
  "reply_of OpCheck = (\<lambda>b. CheckPermissionReply (CheckPermissionResponse b))"
| "reply_of OpAdd = (\<lambda>b. AddPermissionReply (AddPermissionResponse b))"
| "reply_of OpRemove = (\<lambda>b. RemovePermissionReply (RemovePermissionResponse b))"

text \<open>One atomic step of a request; an answered request does not move.\<close>

fun thread_step :: "Logger \<Rightarrow> 'p PermissionsProvider \<Rightarrow> tphase \<Rightarrow> 'p World \<Rightarrow> tphase \<times> 'p World" where
  "thread_step L P (TStart c) w =
     (case call_op c of
        None \<Rightarrow> (case Register (as_iface (New L P)) w c of (w', r) \<Rightarrow> (TDone r, w'))
      | Some (k, req) \<Rightarrow>
          (case validate_op k req of
             Some st \<Rightarrow> (TDone (Inl st), w)
           | None \<Rightarrow> (TCall k req, w\<lparr>out := svc_attempt k (New L P) (user_id req) (permission req) (out w)\<rparr>)))"
| "thread_step L P (TCall k req) w =
     (case prov_op k P (pstate w) (user_id req) (permission req) of
        (s', r) \<Rightarrow> (TFinish k req r, w\<lparr>pstate := s'\<rparr>))"
| "thread_step L P (TFinish k req r) w =
     (case svc_outcome k (New L P) (user_id req) (permission req) r (out w) of
        (o', res) \<Rightarrow> (TDone (map_sum (\<lambda>_. internal_error) (reply_of k) res), w\<lparr>out := o'\<rparr>))"
| "thread_step L P (TDone r) w = (TDone r, w)"

text \<open>A request run alone for \<open>n\<close> steps.\<close>

fun thread_exec :: "Logger \<Rightarrow> 'p PermissionsProvider \<Rightarrow> nat \<Rightarrow> tphase \<Rightarrow> 'p World \<Rightarrow> tphase \<times> 'p World" where
  "thread_exec L P 0 ph w = (ph, w)"
| "thread_exec L P (Suc n) ph w = (case thread_step L P ph w of (ph', w') \<Rightarrow> thread_exec L P n ph' w')"

text \<open>The interleaving semantics: any unanswered request takes its next step.\<close>

inductive cstep :: "Logger \<Rightarrow> 'p PermissionsProvider \<Rightarrow> tphase list \<times> 'p World \<Rightarrow> tphase list \<times> 'p World \<Rightarrow> bool"
  for L P where
  step: "i < length ts \<Longrightarrow> \<not> is_done (ts ! i) \<Longrightarrow> thread_step L P (ts ! i) w = (ph', w') \<Longrightarrow>
         cstep L P (ts, w) (ts[i := ph'], w')"

text \<open>The records a request may still write: one attempt record and at
  most two outcome records.\<close>

primrec log_budget :: "tphase \<Rightarrow> nat" where
  "log_budget (TStart c) = 3"
| "log_budget (TCall k req) = 2"
| "log_budget (TFinish k req r) = 2"
| "log_budget (TDone r) = 0"

text \<open>A schedule: the list of requests chosen to step, in order; a choice
  naming an answered or absent request is skipped.\<close>

fun sched_exec :: "Logger \<Rightarrow> 'p PermissionsProvider \<Rightarrow> nat list \<Rightarrow> tphase list \<times> 'p World \<Rightarrow> tphase list \<times> 'p World" where
  "sched_exec L P [] C = C"
| "sched_exec L P (i # is) (ts, w) =
     (if i < length ts \<and> \<not> is_done (ts ! i)
      then (case thread_step L P (ts ! i) w of (ph', w') \<Rightarrow> sched_exec L P is (ts[i := ph'], w'))
      else sched_exec L P is (ts, w))"

text \<open>Proof predicates: a phase is well formed when its provider call is a
  validated check or add (the only calls a request can reach);
  \<open>mem_granted\<close> reads a grant off the store; \<open>add_obligation\<close> is the
  promise of a valid add on a known user: it stays the same add until its
  call and, from the call on, its permission is granted.\<close>

primrec tp_wf :: "tphase \<Rightarrow> bool" where
  "tp_wf (TStart c) = True"
| "tp_wf (TCall k req) = (k \<noteq> OpRemove \<and> validate_op k req = None)"
| "tp_wf (TFinish k req r) = (k \<noteq> OpRemove \<and> validate_op k req = None)"
| "tp_wf (TDone r) = True"

definition mem_granted :: "MemStore \<Rightarrow> int64 \<Rightarrow> string \<Rightarrow> bool" where
  "mem_granted st u p = (case map_of (grants st) u of None \<Rightarrow> False | Some ps \<Rightarrow> p \<in> set ps)"

definition add_obligation :: "MemStore \<Rightarrow> rpc_call \<Rightarrow> tphase \<Rightarrow> bool" where
  "add_obligation st c ph =
     (case c of
        AddPermissionCall req \<Rightarrow>
          (ValidateAddPermission req = None \<and> map_of (grants st) (user_id req) \<noteq> None \<longrightarrow>
             (case ph of
                TStart c' \<Rightarrow> c' = c
              | TCall k r \<Rightarrow> k = OpAdd \<and> r = req
              | TFinish k r res \<Rightarrow> k = OpAdd \<and> r = req \<and> mem_granted st (user_id req) (permission req)
              | TDone res \<Rightarrow> mem_granted st (user_id req) (permission req)))
      | _ \<Rightarrow> True)"

text \<open>The tags a record of request \<open>req\<close> for operation \<open>k\<close> opens with:
  the server logger's own attributes, then \<open>op\<close>, \<open>user_id\<close> and
  \<open>permission\<close>, as \<open>op_logger\<close> binds them.\<close>

definition audit_tags :: "Logger \<Rightarrow> op_kind \<Rightarrow> PermRequest \<Rightarrow> Attr list" where
  "audit_tags L k req =
     bound_attrs L @ [slog_String ''op'' (op_name k), slog_Int64 ''user_id'' (user_id req),
                      slog_String ''permission'' (permission req)]"

text \<open>A record is attributed to a batch when its tags are those of a request
  of the batch that reaches the service.\<close>

definition attributed :: "Logger \<Rightarrow> rpc_call list \<Rightarrow> Record \<Rightarrow> bool" where
  "attributed L cs r =
     list_ex (\<lambda>c. case call_op c of
                    Some (k, req) \<Rightarrow> prefix (audit_tags L k req) (rec_attrs r)
                  | None \<Rightarrow> False) cs"

text \<open>The phase a thread started on call \<open>c\<close> can be in.\<close>

primrec ph_call :: "rpc_call \<Rightarrow> tphase \<Rightarrow> bool" where
  "ph_call c (TStart c') = (c' = c)"
| "ph_call c (TCall k req) = (call_op c = Some (k, req))"
| "ph_call c (TFinish k req r) = (call_op c = Some (k, req))"
| "ph_call c (TDone r) = True"

text \<open>The same with the tags read off the logger the service binds for the
  request.\<close>

definition logged_for :: "Logger \<Rightarrow> 'p PermissionsProvider \<Rightarrow> rpc_call list \<Rightarrow> Record \<Rightarrow> bool" where
  "logged_for L P cs r =
     list_ex (\<lambda>c. case call_op c of
                    Some (k, req) \<Rightarrow>
                      prefix (bound_attrs (op_logger (New L P) (op_name k) (user_id req) (permission req))) (rec_attrs r)
                  | None \<Rightarrow> False) cs"

section \<open>The phases compose to the operations\<close>

lemma svc_op_phases:
  "svc_op k p w uid q =
     (case prov_op k (permProvider p) (pstate w) uid q of
        (s', r) \<Rightarrow> (case svc_outcome k p uid q r (svc_attempt k p uid q (out w)) of
                      (o', res) \<Rightarrow> (w\<lparr>out := o', pstate := s'\<rparr>, res)))"
  by (cases k; cases "prov_op k (permProvider p) (pstate w) uid q")
     (auto simp: svc_unfold svc_attempt_def svc_outcome_def split: sum.split)

text \<open>One request alone, three steps: the reply and world of the registered
  server.\<close>

lemma thread_exec_Register:
  "thread_exec L P 3 (TStart c) w =
     (case Register (as_iface (New L P)) w c of (w', r) \<Rightarrow> (TDone r, w'))"
proof (cases c)
  case (CheckPermissionCall req)
  then show ?thesis
    using svc_op_phases [of OpCheck "New L P" w "user_id req" "permission req"]
    by (cases "ValidateCheckPermission req")
       (auto simp: stack_unfold handler_valid handler_invalid numeral_3_eq_3 map_sum.compositionality comp_def split: prod.split)
next
  case (AddPermissionCall req)
  then show ?thesis
    using svc_op_phases [of OpAdd "New L P" w "user_id req" "permission req"]
    by (cases "ValidateAddPermission req")
       (auto simp: stack_unfold handler_valid handler_invalid numeral_3_eq_3 map_sum.compositionality comp_def split: prod.split)
qed (simp_all add: numeral_3_eq_3 split: prod.split)


lemma fault_chain_log:
  "fst (fault_chain lg op tbl fmsg err o1) =
     Logger_log lg (if list_ex (\<lambda>(s, m). errors_Is err s) tbl then LevelWarn else LevelError)
       (case find (\<lambda>(s, m). errors_Is err s) tbl of Some (s, m) \<Rightarrow> m | None \<Rightarrow> fmsg) [sl_Err err] o1"
  by (induction lg op tbl fmsg err o1 rule: fault_chain.induct) (simp_all add: Logger_Warn_def Logger_Error_def)

lemma severity_fault_table:
  "severity k (Inl e) = (if list_ex (\<lambda>(s, m). errors_Is e s) (fault_table k) then LevelWarn else LevelError)"
  by (cases k) (simp_all add: severity_def is_domain_fault_def)

section \<open>Runs and schedules\<close>

lemma sched_exec_sound: "(cstep L P)\<^sup>*\<^sup>* C (sched_exec L P is C)"
proof (induction "is" arbitrary: C)
  case Nil
  then show ?case by simp
next
  case (Cons i "is")
  obtain ts w where C: "C = (ts, w)" by fastforce
  show ?case
  proof (cases "i < length ts \<and> \<not> is_done (ts ! i)")
    case True
    obtain ph' w' where t: "thread_step L P (ts ! i) w = (ph', w')" by fastforce
    with True have "cstep L P (ts, w) (ts[i := ph'], w')" by (blast intro: cstep.step)
    with Cons.IH [of "(ts[i := ph'], w')"] C True t show ?thesis
      by (simp add: converse_rtranclp_into_rtranclp)
  next
    case False
    with Cons.IH [of C] C show ?thesis by auto
  qed
qed

lemma sched_exec_reach: "(cstep L P)\<^sup>*\<^sup>* C (fst (sched_exec L P is C), snd (sched_exec L P is C))"
  using sched_exec_sound [of L P C "is"] by simp

lemma Register_no_call:
  "call_op c = None \<Longrightarrow> fst (Register (as_iface (New L P)) w c) = w"
  by (cases c) (auto simp: stack_unfold handler_defs split: option.split)

lemma fault_chain_len:
  "\<exists>new. fst (fault_chain lg op tbl fmsg err o1) = o1 @ new \<and> length new \<le> 1 \<and>
     (\<forall>x \<in> set new. prefix (bound_attrs lg) (rec_attrs x))"
  by (induction lg op tbl fmsg err o1 rule: fault_chain.induct)
     (auto simp: Logger_Warn_def Logger_Error_def Logger_log_def)

lemma svc_outcome_len:
  "\<exists>new. fst (svc_outcome k p u q r o1) = o1 @ new \<and> length new \<le> 2 \<and>
     (\<forall>x \<in> set new. prefix (bound_attrs (op_logger p (op_name k) u q)) (rec_attrs x))"
proof (cases r)
  case (Inl e)
  with fault_chain_len [of "op_logger p (op_name k) u q" "op_name k" "fault_table k" "fail_msg k" e o1]
  show ?thesis by (force simp: svc_outcome_def Let_def)
next
  case (Inr b)
  then show ?thesis
    by (cases k) (auto simp: svc_outcome_def Let_def Logger_Info_def Logger_log_def)
qed

lemma thread_step_log:
  assumes "thread_step L P ph w = (ph', w')" and "\<not> is_done ph"
  shows "\<exists>new. out w' = out w @ new \<and> length new + log_budget ph' \<le> log_budget ph"
proof (cases ph)
  case (TStart c)
  show ?thesis
  proof (cases "call_op c")
    case None
    with assms TStart Register_no_call [OF None, of L P w] show ?thesis
      by (auto split: prod.splits)
  next
    case (Some kr)
    then obtain k req where "call_op c = Some (k, req)" by (cases kr) auto
    with assms TStart show ?thesis
      by (auto simp: svc_attempt_def Logger_Info_def Logger_log_def split: option.splits)
  qed
next
  case (TCall k req)
  with assms show ?thesis by (auto split: prod.splits)
next
  case (TFinish k req r)
  obtain new where "fst (svc_outcome k (New L P) (user_id req) (permission req) r (out w)) = out w @ new"
    "length new \<le> 2"
    using svc_outcome_len by blast
  with assms TFinish show ?thesis by (auto split: prod.splits)
qed (use assms in simp)

lemma cstep_log:
  assumes "cstep L P (ts, w) (ts', w')"
  shows "\<exists>new. out w' = out w @ new \<and>
           length new + sum_list (map log_budget ts') \<le> sum_list (map log_budget ts)"
proof -
  from assms obtain i ph' where i: "i < length ts" and nd: "\<not> is_done (ts ! i)"
    and ts': "ts' = ts[i := ph']" and t: "thread_step L P (ts ! i) w = (ph', w')"
    by (cases rule: cstep.cases) auto
  from thread_step_log [OF t nd] obtain new where
    "out w' = out w @ new" "length new + log_budget ph' \<le> log_budget (ts ! i)" by blast
  moreover have "sum_list (map log_budget ts') + log_budget (ts ! i) = sum_list (map log_budget ts) + log_budget ph'"
    using sum_list_update_nat [of i "map log_budget ts" "log_budget ph'"] i ts' by (simp add: map_update)
  ultimately show ?thesis by auto
qed

section \<open>Interleavings over the in-memory provider\<close>

lemma thread_step_wf: "tp_wf ph \<Longrightarrow> tp_wf (fst (thread_step L P ph w))"
proof (cases ph)
  case (TStart c)
  then show ?thesis by (cases c) (auto split: option.split prod.split)
qed (auto split: prod.split)

lemma mem_granted_update:
  "mem_granted (st\<lparr>grants := AList.update u ps (grants st)\<rparr>) v q =
     (if v = u then q \<in> set ps else mem_granted st v q)"
  by (simp add: mem_granted_def update_conv')

lemma mem_step_store:
  assumes "tp_wf ph" and "thread_step L mem_provider ph w = (ph', w')"
  shows "(map_of (grants (pstate w')) u = None \<longleftrightarrow> map_of (grants (pstate w)) u = None) \<and>
         (mem_granted (pstate w) u p \<longrightarrow> mem_granted (pstate w') u p)"
proof (cases ph)
  case (TStart c)
  with assms(2) Register_pstate [of L mem_provider w c] show ?thesis
    by (cases c) (auto split: option.splits prod.splits)
next
  case (TCall k req)
  with assms show ?thesis
    by (cases k) (auto simp: mem_AddPerm_def mem_CheckPerm_def mem_granted_update update_conv'
        mem_granted_def split: option.splits if_splits)
qed (use assms in \<open>auto split: prod.splits\<close>)


lemma mem_step_inv:
  assumes "tp_wf ph" and "mem_inv (pstate w)"
  shows "mem_inv (pstate (snd (thread_step L mem_provider ph w)))"
proof (cases ph)
  case (TStart c)
  with assms(2) mem_inv_stack_step [OF assms(2), of L c] show ?thesis
    by (auto split: option.splits prod.splits)
next
  case (TCall k req)
  with assms mem_inv_AddPerm [OF assms(2), of "permission req" "user_id req"] show ?thesis
    by (cases k) (auto simp: mem_CheckPerm_def Validate_None_iff split: prod.splits option.splits)
qed (use assms in \<open>auto split: prod.splits\<close>)

lemma add_obligation_frame:
  assumes "add_obligation st c ph"
    and "\<forall>u. (map_of (grants st') u = None) = (map_of (grants st) u = None)"
    and "\<forall>u p. mem_granted st u p \<longrightarrow> mem_granted st' u p"
  shows "add_obligation st' c ph"
  using assms by (auto simp: add_obligation_def split: rpc_call.splits tphase.splits)

lemma add_obligation_own:
  assumes "add_obligation (pstate w) c ph" and "tp_wf ph"
    and "thread_step L mem_provider ph w = (ph', w')"
  shows "add_obligation (pstate w') c ph'"
proof (cases c)
  case (AddPermissionCall req)
  have known: "map_of (grants (pstate w')) (user_id req) = None \<longleftrightarrow>
               map_of (grants (pstate w)) (user_id req) = None"
    using mem_step_store [OF assms(2,3)] by blast
  show ?thesis
  proof (cases ph)
    case (TStart c')
    with assms AddPermissionCall known show ?thesis
      by (auto simp: add_obligation_def split: option.splits)
  next
    case (TCall k r)
    show ?thesis
    proof (cases "map_of (grants (pstate w)) (user_id req)")
      case None
      with known AddPermissionCall show ?thesis by (simp add: add_obligation_def)
    next
      case (Some ps)
      with assms(1) AddPermissionCall TCall
      have "ValidateAddPermission req = None \<Longrightarrow> k = OpAdd \<and> r = req"
        by (simp add: add_obligation_def)
      with assms(3) TCall Some AddPermissionCall show ?thesis
        by (auto simp: add_obligation_def mem_AddPerm_def mem_granted_update mem_granted_def update_conv'
            split: if_splits)
    qed
  next
    case (TFinish k r res)
    with assms AddPermissionCall known show ?thesis
      by (auto simp: add_obligation_def split: prod.splits)
  next
    case (TDone res)
    with assms show ?thesis by simp
  qed
qed (simp_all add: add_obligation_def)


lemma cstep_mem_preserve:
  assumes "cstep L mem_provider (ts, w) (ts', w')"
    and "list_all tp_wf ts" and "list_all2 (add_obligation (pstate w)) cs ts"
  shows "list_all tp_wf ts' \<and> list_all2 (add_obligation (pstate w')) cs ts' \<and>
         (\<forall>u. (map_of (grants (pstate w')) u = None) = (map_of (grants (pstate w)) u = None)) \<and>
         (mem_inv (pstate w) \<longrightarrow> mem_inv (pstate w'))"
proof -
  from assms(1) obtain i ph' where i: "i < length ts"
    and ts': "ts' = ts[i := ph']" and t: "thread_step L mem_provider (ts ! i) w = (ph', w')"
    by (cases rule: cstep.cases) auto
  have wf: "tp_wf (ts ! i)" using assms(2) i by (simp add: list_all_length)
  note st = mem_step_store [OF wf t]
  have "tp_wf ph'" using thread_step_wf [OF wf, of L mem_provider w] t by simp
  with assms(2) i ts' have "list_all tp_wf ts'"
    by (simp add: list_all_length nth_list_update)
  moreover have "list_all2 (add_obligation (pstate w')) cs ts'"
  proof -
    from assms(3) have len: "length cs = length ts" and
      ob: "\<And>j. j < length ts \<Longrightarrow> add_obligation (pstate w) (cs ! j) (ts ! j)"
      by (auto simp: list_all2_conv_all_nth)
    have "add_obligation (pstate w') (cs ! j) (ts' ! j)" if "j < length ts'" for j
    proof (cases "j = i")
      case True
      with i ts' ob [of i] add_obligation_own [OF _ wf t] show ?thesis by simp
    next
      case False
      with ts' that add_obligation_frame [OF ob [of j]] st show ?thesis by simp
    qed
    with len ts' show ?thesis by (simp add: list_all2_conv_all_nth)
  qed
  moreover have "mem_inv (pstate w) \<longrightarrow> mem_inv (pstate w')"
    using mem_step_inv [OF wf, of w L] t by simp
  ultimately show ?thesis using st by blast
qed

lemma interleaved_store:
  assumes "(cstep L mem_provider)\<^sup>*\<^sup>* (map TStart cs, w) C"
  shows "list_all tp_wf (fst C) \<and> list_all2 (add_obligation (pstate (snd C))) cs (fst C) \<and>
         (\<forall>u. (map_of (grants (pstate (snd C))) u = None) = (map_of (grants (pstate w)) u = None)) \<and>
         (mem_inv (pstate w) \<longrightarrow> mem_inv (pstate (snd C)))"
  using assms
proof (induction rule: rtranclp_induct)
  case base
  then show ?case
    by (simp add: list_all_length list_all2_conv_all_nth add_obligation_def split: rpc_call.split)
next
  case (step C1 C2)
  from step.IH cstep_mem_preserve [of L "fst C1" "snd C1" "fst C2" "snd C2" cs] step.hyps(2)
  show ?case by simp
qed


section \<open>The audit record of a failure\<close>

text \<open>
  C22: with a logger that lets Info through, a failed operation writes the
  attempt record and then exactly one record, at the severity of its
  outcome, with the message of the branch taken, carrying the logger's
  attributes, the operation's tags and the provider's error message under
  \<open>error\<close>: the audit log tells a domain fault from an outage even though
  the wire answer does not.
\<close>

theorem audit_failure_record:
  assumes "prov_op k (permProvider p) (pstate w) uid q = (s', Inl e)"
    and "handler_level (log p) \<le> LevelInfo"
  shows "out (fst (svc_op k p w uid q)) =
           svc_attempt k p uid q (out w) @
           [\<lparr>rec_level = severity k (Inl e), rec_msg = fault_msg k e,
             rec_attrs = bound_attrs (log p) @
               [(''op'', StringValue (op_name k)), (''user_id'', Int64Value uid),
                (''permission'', StringValue q), (''error'', StringValue (Error e))]\<rparr>]"
proof -
  let ?lg = "op_logger p (op_name k) uid q"
  obtain o' e' where fc:
    "fault_chain ?lg (op_name k) (fault_table k) (fail_msg k) e (svc_attempt k p uid q (out w)) = (o', e')"
    by fastforce
  have "out (fst (svc_op k p w uid q)) = o'"
    using assms(1) svc_op_phases [of k p w uid q] fc by (simp add: svc_outcome_def Let_def)
  moreover have "o' = Logger_log ?lg (if list_ex (\<lambda>(s, m). errors_Is e s) (fault_table k) then LevelWarn else LevelError)
                     (fault_msg k e) [sl_Err e] (svc_attempt k p uid q (out w))"
    using fault_chain_log [of ?lg "op_name k" "fault_table k" "fail_msg k" e "svc_attempt k p uid q (out w)"] fc
    by (simp add: fault_msg_def)
  moreover have "handler_level ?lg \<le> LevelInfo"
    using assms(2) by (simp add: op_logger_def)
  ultimately show ?thesis
    by (auto simp: severity_fault_table Logger_log_def op_logger_def logging_defs level_defs)
qed

section \<open>Properties of concurrent serving\<close>

text \<open>
  C26: the shared log under concurrency: however the requests of a batch
  interleave, the log only grows, and by at most three records per request
  (attempt, outcome, and the extra check result), whatever the provider.
\<close>

theorem log_bounded:
  assumes "(cstep L P)\<^sup>*\<^sup>* (map TStart cs, w) (ts, w')"
  shows "\<exists>new. out w' = out w @ new \<and> length new \<le> 3 * length cs"
proof -
  have "\<exists>new. out (snd C) = out w @ new \<and> length new + sum_list (map log_budget (fst C)) \<le> 3 * length cs"
    if "(cstep L P)\<^sup>*\<^sup>* (map TStart cs, w) C" for C
    using that
  proof (induction rule: rtranclp_induct)
    case base
    have "sum_list (map log_budget (map TStart cs)) = 3 * length cs"
      by (induction cs) simp_all
    then show ?case by simp
  next
    case (step C1 C2)
    from step.IH obtain n1 where n1: "out (snd C1) = out w @ n1"
      "length n1 + sum_list (map log_budget (fst C1)) \<le> 3 * length cs" by blast
    from cstep_log [of L P "fst C1" "snd C1" "fst C2" "snd C2"] step.hyps(2) obtain n2 where
      "out (snd C2) = out (snd C1) @ n2"
      "length n2 + sum_list (map log_budget (fst C2)) \<le> sum_list (map log_budget (fst C1))" by auto
    with n1 show ?case by (intro exI [of _ "n1 @ n2"]) simp
  qed
  from this [OF assms] show ?thesis by auto
qed

text \<open>
  C16: no lost update: however concurrent requests over the in-memory
  provider interleave, once every request is answered, each valid
  AddPermission for a user the store knew has its permission granted; a
  concurrent add for the same user cannot overwrite it.
\<close>

theorem no_lost_add:
  assumes "(cstep L mem_provider)\<^sup>*\<^sup>* (map TStart cs, w) (ts, w')"
    and "list_all is_done ts"
    and "AddPermissionCall req \<in> set cs" and "ValidateAddPermission req = None"
    and "map_of (grants (pstate w)) (user_id req) \<noteq> None"
  shows "mem_granted (pstate w') (user_id req) (permission req)"
proof -
  from interleaved_store [OF assms(1)]
  have ob: "list_all2 (add_obligation (pstate w')) cs ts"
    and known: "map_of (grants (pstate w')) (user_id req) \<noteq> None"
    using assms(5) by auto
  from assms(3) obtain j where j: "j < length cs" "cs ! j = AddPermissionCall req"
    by (auto simp: in_set_conv_nth)
  with ob have "add_obligation (pstate w') (AddPermissionCall req) (ts ! j)" and "j < length ts"
    by (auto simp: list_all2_conv_all_nth)
  moreover from assms(2) \<open>j < length ts\<close> have "is_done (ts ! j)"
    by (simp add: list_all_length)
  ultimately show ?thesis using assms(4) known
    by (cases "ts ! j") (auto simp: add_obligation_def)
qed

text \<open>
  C17: the store invariant holds under every interleaving: from a store
  with only non-zero users and distinct vocabulary permissions, every
  configuration the concurrent server reaches over the in-memory provider
  keeps it.
\<close>

theorem interleaved_mem_inv:
  assumes "(cstep L mem_provider)\<^sup>*\<^sup>* (map TStart cs, w) C" and "mem_inv (pstate w)"
  shows "mem_inv (pstate (snd C))"
  using interleaved_store [OF assms(1)] assms(2) by blast

section \<open>Every record names its request\<close>

lemma thread_step_tags:
  assumes "thread_step L P ph w = (ph', w')" and "ph_call c ph"
  shows "ph_call c ph' \<and> (\<exists>new. out w' = out w @ new \<and>
           (\<forall>x \<in> set new. \<exists>k req. call_op c = Some (k, req) \<and>
              prefix (bound_attrs (op_logger (New L P) (op_name k) (user_id req) (permission req))) (rec_attrs x)))"
proof (cases ph)
  case (TStart c')
  show ?thesis
  proof (cases "call_op c")
    case None
    with assms TStart Register_no_call [OF None, of L P w] show ?thesis
      by (auto split: prod.splits)
  next
    case (Some kr)
    then obtain k req where "call_op c = Some (k, req)" by (cases kr) auto
    with assms TStart show ?thesis
      by (auto simp: svc_attempt_def Logger_Info_def Logger_log_def split: option.splits)
  qed
next
  case (TCall k req)
  with assms show ?thesis by (auto split: prod.splits)
next
  case (TFinish k req r)
  obtain new where "fst (svc_outcome k (New L P) (user_id req) (permission req) r (out w)) = out w @ new"
    "\<forall>x \<in> set new. prefix (bound_attrs (op_logger (New L P) (op_name k) (user_id req) (permission req))) (rec_attrs x)"
    using svc_outcome_len [of k "New L P" "user_id req" "permission req" r "out w"] by blast
  with assms TFinish show ?thesis by (auto split: prod.splits)
qed (use assms in simp)

lemma cstep_tags:
  assumes "cstep L P (ts, w) (ts', w')" and "list_all2 ph_call cs ts"
    and "list_all (logged_for L P cs) (out w)"
  shows "list_all2 ph_call cs ts' \<and> list_all (logged_for L P cs) (out w')"
proof -
  from assms(1) obtain i ph' where i: "i < length ts" and ts': "ts' = ts[i := ph']"
    and t: "thread_step L P (ts ! i) w = (ph', w')"
    by (cases rule: cstep.cases) auto
  from assms(2) i have ci: "i < length cs" "ph_call (cs ! i) (ts ! i)"
    by (auto simp: list_all2_conv_all_nth)
  from thread_step_tags [OF t ci(2)] obtain new where ph': "ph_call (cs ! i) ph'"
    and o: "out w' = out w @ new"
    and n: "\<forall>x \<in> set new. \<exists>k req. call_op (cs ! i) = Some (k, req) \<and>
              prefix (bound_attrs (op_logger (New L P) (op_name k) (user_id req) (permission req))) (rec_attrs x)"
    by blast
  have "list_all2 ph_call (cs[i := cs ! i]) (ts[i := ph'])"
    using list_all2_update_cong [OF assms(2) ph'] .
  moreover have "logged_for L P cs x" if "x \<in> set new" for x
  proof -
    from n that obtain k req where "call_op (cs ! i) = Some (k, req)"
      and "prefix (bound_attrs (op_logger (New L P) (op_name k) (user_id req) (permission req))) (rec_attrs x)"
      by blast
    with nth_mem [OF ci(1)] show ?thesis unfolding logged_for_def list_ex_iff by force
  qed
  ultimately show ?thesis using assms(3) o ts' by (auto simp: list_all_iff)
qed

lemma reach_logged_for:
  assumes "(cstep L P)\<^sup>*\<^sup>* (map TStart cs, w) C" and "list_all (logged_for L P cs) (out w)"
  shows "list_all2 ph_call cs (fst C) \<and> list_all (logged_for L P cs) (out (snd C))"
  using assms(1)
proof (induction rule: rtranclp_induct)
  case base
  with assms(2) show ?case by (simp add: list_all2_map2 list_all2_same)
next
  case (step C1 C2)
  then show ?case using cstep_tags [of L P "fst C1" "snd C1" "fst C2" "snd C2" cs] by simp
qed

text \<open>
  C31: under every interleaving of a batch of requests, every record the
  server writes to the shared log opens with the server logger's attributes
  followed by the tags \<open>op\<close>, \<open>user_id\<close> and \<open>permission\<close> of a request of
  the batch: no record is untagged or names a request that was not made.
\<close>

theorem audit_attribution:
  assumes "(cstep L P)\<^sup>*\<^sup>* (map TStart cs, w) (ts, w')"
    and "list_all (attributed L cs) (out w)"
  shows "list_all (attributed L cs) (out w')"
proof -
  have "logged_for L P cs = attributed L cs"
    by (simp add: fun_eq_iff logged_for_def attributed_def audit_tags_def op_logger_def New_def Logger_With_def
        cong: option.case_cong prod.case_cong)
  with reach_logged_for [OF assms(1)] assms(2) show ?thesis by simp
qed

end
