(* ===== verification/Linearizability.thy ===== *)
theory Linearizability
  imports Concurrency "HOL-Library.Multiset"
begin

text \<open>
  Linearizability of the concurrent server of \<^theory_text>\<open>Concurrency\<close>, over
  any provider. Every request has one atomic step at which it reads or
  writes the provider's state: its provider call, or, for a request that
  makes none (rejected by validation, RemovePermission, ListPermissions), the
  step that answers it. The proof keeps, as ghost state, the list of
  requests past that point in the order they passed it, and shows that the
  sequential registered server run on that list explains the state and the
  replies (\<open>lin_inv\<close>, preserved by every step). Over a provider that
  meets the contract this fixes, independently of the schedule, the grants a
  batch leaves and the replies of a batch that adds nothing.
\<close>

text \<open>The reply a handler gives once the provider answered \<open>r\<close>: the
  service's outcome, mapped to the wire; the log the outcome is written to
  does not matter (\<open>svc_outcome_snd\<close>).\<close>

definition finish_reply ::
  "Logger \<Rightarrow> 'p PermissionsProvider \<Rightarrow> op_kind \<Rightarrow> PermRequest \<Rightarrow> go_error + bool \<Rightarrow> status + rpc_reply" where
  "finish_reply L P k req r =
     map_sum (\<lambda>_. internal_error) (reply_of k) (snd (svc_outcome k (New L P) (user_id req) (permission req) r []))"

text \<open>A request's phase once past its linearization point: its reply, or
  the provider's answer from which the reply is computed.\<close>

definition lin_entry :: "Logger \<Rightarrow> 'p PermissionsProvider \<Rightarrow> tphase \<Rightarrow> status + rpc_reply \<Rightarrow> bool" where
  "lin_entry L P ph e = (ph = TDone e \<or> (\<exists>k req r. ph = TFinish k req r \<and> finish_reply L P k req r = e))"

text \<open>A request's phase before it: not started, or validated and about to
  call the provider.\<close>

definition lin_pending :: "rpc_call \<Rightarrow> tphase \<Rightarrow> bool" where
  "lin_pending c ph =
     (ph = TStart c \<or> (\<exists>k req. ph = TCall k req \<and> call_op c = Some (k, req) \<and> validate_op k req = None))"

text \<open>The invariant: \<open>H\<close> lists the requests past their linearization
  point in the order they passed it; the sequential server run on them in
  that order explains the provider's state and their replies, and the other
  requests have not touched the state.\<close>

definition lin_inv ::
  "Logger \<Rightarrow> 'p PermissionsProvider \<Rightarrow> rpc_call list \<Rightarrow> 'p World \<Rightarrow> nat list \<Rightarrow> tphase list \<times> 'p World \<Rightarrow> bool" where
  "lin_inv L P cs w0 H C =
     (length (fst C) = length cs \<and> distinct H \<and> set H \<subseteq> {..<length cs} \<and>
      pstate (snd C) = pstate (fst (run (Register (as_iface (New L P))) w0 (map ((!) cs) H))) \<and>
      (\<forall>i < length cs. i \<notin> set H \<longrightarrow> lin_pending (cs ! i) (fst C ! i)) \<and>
      (\<forall>j < length H. lin_entry L P (fst C ! (H ! j))
                        (snd (run (Register (as_iface (New L P))) w0 (map ((!) cs) H)) ! j)))"

text \<open>The requests that may write grants: AddPermission (RemovePermission
  never reaches the provider).\<close>

fun writes_grants :: "rpc_call \<Rightarrow> bool" where
  "writes_grants (AddPermissionCall req) = True"
| "writes_grants c = False"

lemma run_snoc:
  "run f w (xs @ [x]) =
     (fst (f (fst (run f w xs)) x), snd (run f w xs) @ [snd (f (fst (run f w xs)) x)])"
  by (induction xs arbitrary: w) (auto split: prod.split)

lemma length_run: "length (snd (run f w xs)) = length xs"
  by (induction xs arbitrary: w) (simp_all add: split_def)

lemma fault_chain_snd: "snd (fault_chain lg op tbl fmsg err o1) = snd (fault_chain lg op tbl fmsg err o2)"
  by (induction lg op tbl fmsg err o1 rule: fault_chain.induct) simp_all

lemma svc_outcome_snd: "snd (svc_outcome k p u q r o1) = snd (svc_outcome k p u q r o2)"
  by (cases r) (simp_all add: svc_outcome_def Let_def fault_chain_snd [of _ _ _ _ _ o1 o2])

lemma thread_step_finish:
  "thread_step L P (TFinish k req r) w = (TDone (finish_reply L P k req r), w\<lparr>out := fst (svc_outcome k (New L P) (user_id req) (permission req) r (out w))\<rparr>)"
  using svc_outcome_snd [of k "New L P" "user_id req" "permission req" r "out w" "[]"]
  by (cases "svc_outcome k (New L P) (user_id req) (permission req) r (out w)") (simp add: finish_reply_def)

lemma Register_pstate_only:
  assumes "pstate w1 = pstate w2"
  shows "pstate (fst (Register (as_iface (New L P)) w1 c)) = pstate (fst (Register (as_iface (New L P)) w2 c)) \<and>
         snd (Register (as_iface (New L P)) w1 c) = snd (Register (as_iface (New L P)) w2 c)"
proof (cases c)
  case (CheckPermissionCall req)
  obtain s' r where "prov_op OpCheck (permProvider (New L P)) (pstate w1) (user_id req) (permission req) = (s', r)"
    by fastforce
  with assms CheckPermissionCall show ?thesis
    using svc_op_result [of OpCheck "New L P" w1 "user_id req" "permission req" s' r]
      svc_op_result [of OpCheck "New L P" w2 "user_id req" "permission req" s' r]
    by (cases "ValidateCheckPermission req")
       (simp_all add: stack_unfold handler_valid handler_invalid)
next
  case (AddPermissionCall req)
  obtain s' r where "prov_op OpAdd (permProvider (New L P)) (pstate w1) (user_id req) (permission req) = (s', r)"
    by fastforce
  with assms AddPermissionCall show ?thesis
    using svc_op_result [of OpAdd "New L P" w1 "user_id req" "permission req" s' r]
      svc_op_result [of OpAdd "New L P" w2 "user_id req" "permission req" s' r]
    by (cases "ValidateAddPermission req")
       (simp_all add: stack_unfold handler_valid handler_invalid)
next
  case (RemovePermissionCall req)
  with assms show ?thesis by (simp add: stack_unfold)
next
  case (ListPermissionsCall lreq)
  with assms show ?thesis
    by (cases "ValidateListPermissions lreq") (simp_all add: stack_unfold handler_valid handler_invalid)
qed

lemma lin_point_call:
  assumes "call_op c = Some (k, req)" and "validate_op k req = None"
    and "prov_op k P (pstate w) (user_id req) (permission req) = (s', r)"
  shows "pstate (fst (Register (as_iface (New L P)) w c)) = s' \<and>
         snd (Register (as_iface (New L P)) w c) = finish_reply L P k req r"
proof -
  let ?w1 = "w\<lparr>out := svc_attempt k (New L P) (user_id req) (permission req) (out w)\<rparr>"
  have "thread_exec L P 3 (TStart c) w = thread_exec L P 1 (TFinish k req r) (?w1\<lparr>pstate := s'\<rparr>)"
    using assms by (simp add: numeral_3_eq_3)
  also have "\<dots> = (TDone (finish_reply L P k req r),
                   ?w1\<lparr>pstate := s', out := fst (svc_outcome k (New L P) (user_id req) (permission req) r (out ?w1))\<rparr>)"
    by (simp del: thread_step.simps add: thread_step_finish)
  finally show ?thesis using thread_exec_Register [of L P c w]
    by (cases "Register (as_iface (New L P)) w c") simp
qed

lemma lin_point_invalid:
  assumes "call_op c = Some (k, req)" and "validate_op k req = Some st"
  shows "Register (as_iface (New L P)) w c = (w, Inl st)"
  using assms by (cases c) (auto simp: stack_unfold handler_invalid)

lemma lin_inv_extend:
  assumes inv: "lin_inv L P cs w0 H (ts, w)" and i: "i < length cs" "i \<notin> set H"
    and st: "pstate w' = pstate (fst (Register (as_iface (New L P))
               (fst (run (Register (as_iface (New L P))) w0 (map ((!) cs) H))) (cs ! i)))"
    and e: "lin_entry L P ph' (snd (Register (as_iface (New L P))
               (fst (run (Register (as_iface (New L P))) w0 (map ((!) cs) H))) (cs ! i)))"
  shows "lin_inv L P cs w0 (H @ [i]) (ts[i := ph'], w')"
proof -
  let ?f = "Register (as_iface (New L P))"
  let ?R = "run ?f w0 (map ((!) cs) H)"
  have snoc: "run ?f w0 (map ((!) cs) H @ [cs ! i]) = (fst (?f (fst ?R) (cs ! i)), snd ?R @ [snd (?f (fst ?R) (cs ! i))])"
    by (rule run_snoc)
  from inv have len: "length ts = length cs" and d: "distinct H" and sub: "set H \<subseteq> {..<length cs}"
    and pend: "\<forall>i' < length cs. i' \<notin> set H \<longrightarrow> lin_pending (cs ! i') (ts ! i')"
    and ent: "\<forall>j < length H. lin_entry L P (ts ! (H ! j)) (snd ?R ! j)"
    by (simp_all add: lin_inv_def)
  have lr: "length (snd ?R) = length H" by (simp add: length_run)
  have ent': "lin_entry L P (ts[i := ph'] ! ((H @ [i]) ! j)) (snd (run ?f w0 (map ((!) cs) (H @ [i]))) ! j)"
    if j: "j < length (H @ [i])" for j
  proof (cases "j < length H")
    case True
    then have "H ! j \<noteq> i" using i(2) nth_mem by blast
    with True ent lr show ?thesis by (simp add: snoc nth_append)
  next
    case False
    with j have "j = length H" by simp
    with e i len lr show ?thesis by (simp add: snoc nth_append)
  qed
  from len d sub pend i st show ?thesis
    using ent' by (auto simp: lin_inv_def snoc)
qed

lemma lin_inv_keep:
  assumes inv: "lin_inv L P cs w0 H (ts, w)" and i: "i < length cs"
    and st: "pstate w' = pstate w"
    and pend: "i \<notin> set H \<Longrightarrow> lin_pending (cs ! i) ph'"
    and e: "\<And>j. j < length H \<Longrightarrow> H ! j = i \<Longrightarrow>
              lin_entry L P ph' (snd (run (Register (as_iface (New L P))) w0 (map ((!) cs) H)) ! j)"
  shows "lin_inv L P cs w0 H (ts[i := ph'], w')"
  using inv i st pend e by (auto simp: lin_inv_def nth_list_update)

lemma lin_inv_step:
  assumes inv: "lin_inv L P cs w0 H (ts, w)" and s: "cstep L P (ts, w) (ts', w')"
  shows "\<exists>H'. lin_inv L P cs w0 H' (ts', w')"
proof -
  let ?f = "Register (as_iface (New L P))"
  let ?R = "run ?f w0 (map ((!) cs) H)"
  from s obtain i ph' where i: "i < length ts" and nd: "\<not> is_done (ts ! i)"
    and ts': "ts' = ts[i := ph']" and t: "thread_step L P (ts ! i) w = (ph', w')"
    by (cases rule: cstep.cases) auto
  from inv have len: "length ts = length cs" and d: "distinct H"
    and ps: "pstate w = pstate (fst ?R)" by (simp_all add: lin_inv_def)
  with i have ic: "i < length cs" by simp
  show ?thesis
  proof (cases "i \<in> set H")
    case True
    then obtain j where j: "j < length H" "H ! j = i" by (auto simp: in_set_conv_nth)
    with inv have "lin_entry L P (ts ! i) (snd ?R ! j)" by (auto simp: lin_inv_def)
    with nd obtain k req r where tf: "ts ! i = TFinish k req r" and fr: "finish_reply L P k req r = snd ?R ! j"
      by (auto simp: lin_entry_def)
    from t tf have ph': "ph' = TDone (finish_reply L P k req r)" and st: "pstate w' = pstate w"
      by (auto simp: thread_step_finish simp del: thread_step.simps)
    have "lin_entry L P ph' (snd ?R ! j')" if "j' < length H" "H ! j' = i" for j'
    proof -
      from that j nth_eq_iff_index_eq [OF d that(1) j(1)] have "j' = j" by simp
      with ph' fr show ?thesis by (simp add: lin_entry_def)
    qed
    with lin_inv_keep [OF inv ic st] True ts' show ?thesis by blast
  next
    case False
    with inv ic have "lin_pending (cs ! i) (ts ! i)" by (simp add: lin_inv_def)
    then consider (start) "ts ! i = TStart (cs ! i)"
      | (call) k req where "ts ! i = TCall k req" "call_op (cs ! i) = Some (k, req)" "validate_op k req = None"
      by (auto simp: lin_pending_def)
    then show ?thesis
    proof cases
      case start
      show ?thesis
      proof (cases "call_op (cs ! i)")
        case None
        with t start have "ph' = TDone (snd (?f w (cs ! i)))" "w' = fst (?f w (cs ! i))"
          by (auto split: prod.splits)
        with Register_pstate_only [OF ps, of L P "cs ! i"]
          lin_inv_extend [OF inv ic False, of w' ph'] ts' show ?thesis
          by (auto simp: lin_entry_def)
      next
        case (Some kr)
        then obtain k req where kr: "call_op (cs ! i) = Some (k, req)" by (cases kr) auto
        show ?thesis
        proof (cases "validate_op k req")
          case (Some st)
          with t start kr have "ph' = TDone (Inl st)" "w' = w" by auto
          with lin_point_invalid [OF kr Some, of L P "fst ?R"] ps
            lin_inv_extend [OF inv ic False, of w' ph'] ts' show ?thesis
            by (auto simp: lin_entry_def)
        next
          case None
          with t start kr have "ph' = TCall k req" "pstate w' = pstate w" by auto
          moreover have "\<And>j. j < length H \<Longrightarrow> H ! j \<noteq> i" using False nth_mem by blast
          ultimately show ?thesis using lin_inv_keep [OF inv ic, of w' ph'] kr None ts'
            by (auto simp: lin_pending_def)
        qed
      qed
    next
      case call
      obtain s' r where pr: "prov_op k P (pstate w) (user_id req) (permission req) = (s', r)" by fastforce
      with t call have "ph' = TFinish k req r" "pstate w' = s'" by auto
      moreover from lin_point_call [OF call(2,3), of P "fst ?R" s' r L] pr ps
      have "pstate (fst (?f (fst ?R) (cs ! i))) = s'" "snd (?f (fst ?R) (cs ! i)) = finish_reply L P k req r"
        by simp_all
      ultimately show ?thesis using lin_inv_extend [OF inv ic False, of w' ph'] ts'
        by (auto simp: lin_entry_def)
    qed
  qed
qed

lemma lin_inv_reach:
  assumes "(cstep L P)\<^sup>*\<^sup>* (map TStart cs, w) C"
  shows "\<exists>H. lin_inv L P cs w H C"
  using assms
proof (induction rule: rtranclp_induct)
  case base
  have "lin_inv L P cs w [] (map TStart cs, w)" by (simp add: lin_inv_def lin_pending_def)
  then show ?case by blast
next
  case (step C1 C2)
  from step.IH obtain H where "lin_inv L P cs w H (fst C1, snd C1)" by auto
  from lin_inv_step [OF this, of "fst C2" "snd C2"] step.hyps(2) show ?case by simp
qed

lemma lin_inv_final:
  assumes inv: "lin_inv L P cs w H (ts, w')" and dn0: "list_all is_done ts"
  shows "set H = {..<length cs} \<and>
         map ((!) ts) H = map TDone (snd (run (Register (as_iface (New L P))) w (map ((!) cs) H)))"
proof -
  let ?f = "Register (as_iface (New L P))"
  from inv have len: "length ts = length cs" and sub: "set H \<subseteq> {..<length cs}"
    and pend: "\<forall>i < length cs. i \<notin> set H \<longrightarrow> lin_pending (cs ! i) (ts ! i)"
    and ent: "\<forall>j < length H. lin_entry L P (ts ! (H ! j)) (snd (run ?f w (map ((!) cs) H)) ! j)"
    by (simp_all add: lin_inv_def)
  from dn0 len have dn: "\<And>i. i < length cs \<Longrightarrow> is_done (ts ! i)" by (simp add: list_all_length)
  have "set H = {..<length cs}"
  proof
    show "{..<length cs} \<subseteq> set H"
    proof
      fix i assume "i \<in> {..<length cs}"
      with pend dn show "i \<in> set H" by (fastforce simp: lin_pending_def)
    qed
  qed (rule sub)
  moreover have "map ((!) ts) H = map TDone (snd (run ?f w (map ((!) cs) H)))"
  proof (rule nth_equalityI)
    show "length (map ((!) ts) H) = length (map TDone (snd (run ?f w (map ((!) cs) H))))"
      by (simp add: length_run)
  next
    fix j assume "j < length (map ((!) ts) H)"
    then have j: "j < length H" by simp
    with sub have "H ! j < length cs" using nth_mem by blast
    with dn ent j show "map ((!) ts) H ! j = map TDone (snd (run ?f w (map ((!) cs) H))) ! j"
      by (fastforce simp: lin_entry_def length_run)
  qed
  ultimately show ?thesis ..
qed

text \<open>The sequential server over a contract provider, read on the grant
  map: the fold of the RPCs' effects.\<close>

lemma run_abs:
  assumes "provider_contract P \<alpha>"
  shows "\<alpha> (pstate (fst (run (Register (as_iface (New L P))) w xs))) =
           fold (\<lambda>c g. rpc_effect g c) xs (\<alpha> (pstate w))"
proof (induction xs arbitrary: w)
  case Nil
  then show ?case by simp
next
  case (Cons c xs)
  then show ?case by (simp only: run_fst fold_Cons comp_def Register_abs [OF assms])
qed

lemma perm_indices_mset:
  assumes "distinct H" and "set H = {..<length cs}"
  shows "mset (map ((!) cs) H) = mset cs"
proof -
  have "mset H = mset [0..<length cs]"
    using assms set_eq_iff_mset_eq_distinct [of H "[0..<length cs]"] by (simp add: atLeast0LessThan)
  then have "mset (map ((!) cs) H) = mset (map ((!) cs) [0..<length cs])"
    by (simp only: mset_map)
  then show ?thesis by (simp add: map_nth)
qed

section \<open>Linearizability\<close>

text \<open>
  C25: the concurrent server is linearizable. However concurrent requests
  interleave, once all are answered there is an order of the requests (the
  order in which they passed their linearization point: their provider
  call, or the step that answered them without one) in which the sequential
  registered server, run from the same world, gives every request the
  reply it got and leaves the provider in the same state. Only the log
  differs: its records interleave.
\<close>

theorem linearizable:
  assumes "(cstep L P)\<^sup>*\<^sup>* (map TStart cs, w) (ts, w')" and "list_all is_done ts"
  shows "\<exists>order. distinct order \<and> set order = {..<length cs} \<and>
           pstate w' = pstate (fst (run (Register (as_iface (New L P))) w (map ((!) cs) order))) \<and>
           map ((!) ts) order = map TDone (snd (run (Register (as_iface (New L P))) w (map ((!) cs) order)))"
proof -
  from lin_inv_reach [OF assms(1)] obtain H where inv: "lin_inv L P cs w H (ts, w')" by blast
  with lin_inv_final [OF inv assms(2)] show ?thesis by (auto simp: lin_inv_def)
qed


text \<open>
  C28: the grants a batch of concurrent requests leaves do not depend on the
  schedule. Over any provider that meets the contract, however the requests
  interleave, once all are answered the grant map is the initial one with
  every valid AddPermission on a known user applied, in the order of the
  batch or any other: races between requests decide their replies (C24),
  never the grants.
\<close>

theorem batch_grants:
  assumes "provider_contract P \<alpha>"
    and "(cstep L P)\<^sup>*\<^sup>* (map TStart cs, w) (ts, w')" and "list_all is_done ts"
  shows "\<alpha> (pstate w') = fold (\<lambda>c g. rpc_effect g c) cs (\<alpha> (pstate w))"
proof -
  from lin_inv_reach [OF assms(2)] obtain H where inv: "lin_inv L P cs w H (ts, w')" by blast
  then have d: "distinct H"
    and ps: "pstate w' = pstate (fst (run (Register (as_iface (New L P))) w (map ((!) cs) H)))"
    by (simp_all add: lin_inv_def)
  from lin_inv_final [OF inv assms(3)] have "set H = {..<length cs}" ..
  with d have m: "mset (map ((!) cs) H) = mset cs" by (rule perm_indices_mset)
  have "fold (\<lambda>c g. rpc_effect g c) (map ((!) cs) H) = fold (\<lambda>c g. rpc_effect g c) cs"
    by (rule fold_multiset_equiv [OF _ m]) (simp add: fun_eq_iff rpc_effect_commute)
  with ps run_abs [OF assms(1), of L w "map ((!) cs) H"] show ?thesis by simp
qed


text \<open>Over a contract provider, the reply to a request that writes no grant
  is fixed by the abstract grant map.\<close>

lemma reply_abs:
  assumes "provider_contract P \<alpha>" and "\<not> writes_grants c"
    and "\<alpha> (pstate w1) = \<alpha> (pstate w2)"
  shows "snd (Register (as_iface (New L P)) w1 c) = snd (Register (as_iface (New L P)) w2 c)"
proof (cases c)
  case (CheckPermissionCall req)
  show ?thesis
  proof (cases "ValidateCheckPermission req")
    case None
    then have v: "user_id req \<noteq> 0" "permission req \<in> set AllPermissions"
      by (simp_all add: Validate_None_iff)
    obtain s1 r1 where p1: "m_CheckPerm P (pstate w1) (user_id req) (permission req) = (s1, r1)" by fastforce
    obtain s2 r2 where p2: "m_CheckPerm P (pstate w2) (user_id req) (permission req) = (s2, r2)" by fastforce
    from contract_check [OF assms(1) p1] contract_check [OF assms(1) p2] assms(3)
    have "map_sum (\<lambda>_. internal_error) CheckPermissionResponse r1 =
          map_sum (\<lambda>_. internal_error) CheckPermissionResponse r2"
      by (cases r1; cases r2) (auto split: option.splits)
    with stack_handler(1) [OF v p1, of L] stack_handler(1) [OF v p2, of L] CheckPermissionCall
    show ?thesis by (simp add: stack_unfold permissions_server_def)
  next
    case (Some st)
    with CheckPermissionCall show ?thesis by (simp add: stack_unfold handler_invalid)
  qed
next
  case (ListPermissionsCall lreq)
  then show ?thesis
    by (cases "ValidateListPermissions lreq") (simp_all add: stack_unfold handler_valid handler_invalid)
qed (use assms(2) in \<open>simp_all add: stack_unfold\<close>)

lemma run_readonly:
  assumes "provider_contract P \<alpha>" and "\<not> list_ex writes_grants xs"
    and "\<alpha> (pstate w') = \<alpha> (pstate w)"
  shows "snd (run (Register (as_iface (New L P))) w' xs) = map (\<lambda>c. snd (Register (as_iface (New L P)) w c)) xs"
  using assms(2,3)
proof (induction xs arbitrary: w')
  case Nil
  then show ?case by simp
next
  case (Cons c xs)
  then have nw: "\<not> writes_grants c" by simp
  then have "rpc_effect g c = g" for g by (cases c) simp_all
  with Register_abs [OF assms(1), of L w' c] Cons.prems(2)
  have "\<alpha> (pstate (fst (Register (as_iface (New L P)) w' c))) = \<alpha> (pstate w)" by simp
  with Cons.IH [of "fst (Register (as_iface (New L P)) w' c)"] Cons.prems(1)
    reply_abs [OF assms(1) nw Cons.prems(2), of L]
  show ?case by (simp add: split_def)
qed

text \<open>
  C30: without writes there is no race. Over any provider that meets the
  contract, a batch of concurrent requests none of which is an
  AddPermission answers every request, under every schedule, exactly as
  the sequential server answers the batch in order.
\<close>

theorem readonly_batch_deterministic:
  assumes "provider_contract P \<alpha>" and "\<not> list_ex writes_grants cs"
    and "(cstep L P)\<^sup>*\<^sup>* (map TStart cs, w) (ts, w')" and "list_all is_done ts"
  shows "ts = map TDone (snd (run (Register (as_iface (New L P))) w cs))"
proof -
  let ?g = "\<lambda>c. TDone (snd (Register (as_iface (New L P)) w c))"
  from lin_inv_reach [OF assms(3)] obtain H where inv: "lin_inv L P cs w H (ts, w')" by blast
  then have len: "length ts = length cs" by (simp add: lin_inv_def)
  from lin_inv_final [OF inv assms(4)]
  have H: "set H = {..<length cs}"
    and m: "map ((!) ts) H = map TDone (snd (run (Register (as_iface (New L P))) w (map ((!) cs) H)))"
    by blast+
  from assms(2) H have "\<not> list_ex writes_grants (map ((!) cs) H)"
    by (auto simp: list_ex_iff)
  from run_readonly [OF assms(1) this, of w w L] m
  have m': "map ((!) ts) H = map (?g \<circ> (!) cs) H" by simp
  have "ts = map ?g cs"
  proof (rule nth_equalityI)
    show "length ts = length (map ?g cs)" using len by simp
  next
    fix i assume "i < length ts"
    with len H have "i \<in> set H" by simp
    with m' show "ts ! i = map ?g cs ! i"
      using len \<open>i < length ts\<close> by (auto simp: map_eq_conv)
  qed
  with run_readonly [OF assms(1,2), of w w L] show ?thesis by simp
qed

end
