(* ===== verification/App.thy ===== *)
theory App
  imports GoRuntime
begin

text \<open>
  Package \<open>app\<close> (src/internal/app/app.go): process bootstrap. \<open>New\<close> builds
  the authentication service and the gRPC application around it and returns
  them in the struct \<open>App\<close>. The packages it calls (\<open>services/auth\<close>,
  \<open>app/grpc\<close>) are not in the repository; their constructors are modelled
  as values that record exactly the arguments they are given, which is all
  that \<open>New\<close> decides. Go's \<open>int\<close> (the port) and \<open>time.Duration\<close> (a
  count of nanoseconds) are 64-bit integers.
\<close>

section \<open>The collaborators, by their constructors\<close>

text \<open>\<open>auth.New(log)\<close>.\<close>

datatype AuthService = AuthService (auth_log: Logger)

definition auth_New :: "Logger \<Rightarrow> AuthService" where
  "auth_New log = AuthService log"

text \<open>\<open>grpcapp.New(log, authService, grpcPort)\<close>.\<close>

record GrpcApp =
  gapp_log :: Logger
  gapp_auth :: AuthService
  gapp_port :: int64

definition grpcapp_New :: "Logger \<Rightarrow> AuthService \<Rightarrow> int64 \<Rightarrow> GrpcApp" where
  "grpcapp_New log auth port = \<lparr>gapp_log = log, gapp_auth = auth, gapp_port = port\<rparr>"

section \<open>The application\<close>

record App =
  GRPCSrv :: GrpcApp

text \<open>\<open>app.New\<close>, under a name that does not clash with the service's
  \<open>New\<close>.\<close>

definition app_New :: "Logger \<Rightarrow> int64 \<Rightarrow> string \<Rightarrow> int64 \<Rightarrow> App" where
  "app_New log grpcPort storagePath tokenTTL =
     (let authService = auth_New log;
          grpcApp = grpcapp_New log authService grpcPort
      in \<lparr>GRPCSrv = grpcApp\<rparr>)"

section \<open>What the bootstrap depends on\<close>

text \<open>
  C21: the application \<open>New\<close> builds is determined by the logger and the
  port alone: two calls build the same application exactly when they agree
  on these two, so the storage path and the token lifetime it is given have
  no effect (no storage is opened, no provider or permissions service is
  built).
\<close>

theorem app_New_inputs:
  "app_New l p s t = app_New l' p' s' t' \<longleftrightarrow> l = l' \<and> p = p'"
  by (auto simp: app_New_def grpcapp_New_def auth_New_def)

end
