(* ===== verification/Spec2Isabelle.thy ===== *)
theory Spec2Isabelle
  imports Linearizability App
begin

text \<open>
  \<^bold>\<open>A verification development of the permission-authorization core of
  Drondobycha/sso.\<close>

  \<^medskip>\<^bold>\<open>The program.\<close> Three layers, leaves first. The persistence provider
  (an interface, implemented outside the sources) stores which user holds
  which permission. The authorization service
  (src/internal/services/permissions/permissions.go, type \<open>Permissions\<close>)
  calls the provider once per operation (\<open>AddPerm\<close>, \<open>RemovePerm\<close>,
  \<open>CheckPerm\<close>, \<open>ListPerm\<close>), recognises the provider's domain failures with
  \<open>errors.Is\<close> and answers them with its own sentinels wrapped with an
  operation tag, passes other failures through, and writes structured audit
  records with \<open>log/slog\<close>. The gRPC adapter
  (src/internal/grpc/permissions/server.go, type \<open>serverAPI\<close>) validates each
  request (\<open>Validate*\<close>), calls the service through its own \<open>Permissions\<close>
  interface and turns every service failure into \<open>Internal "internal
  error"\<close>; \<open>Register\<close> installs it in the generated gRPC method table. The
  vocabulary of permissions and the storage sentinels are in
  src/internal/storage/storage.go. src/internal/app/app.go builds an
  authentication service and a gRPC app from a logger and a port only. grpc-go
  serves each RPC on its own goroutine; the requests share the provider's
  state and the log.

  \<^medskip>\<^bold>\<open>The theories.\<close>
  \<^item> \<^theory_text>\<open>Prelude\<close>: the type \<open>int64\<close> (\<open>64 word\<close>), the fact collections
    \<open>model_defs\<close> (the definitions a witness unfolds) and \<open>iface_simps\<close>
    (which function an interface value dispatches to), generic list lemmas.
  \<^item> \<^theory_text>\<open>GoRuntime\<close>: the library semantics the sources rely on:
    \<open>errors.New\<close> values with the identity of their declaration
    (\<open>ErrNew\<close>), \<open>fmt.Errorf("%s: %w")\<close> (\<open>fmt_Errorf_w\<close>), \<open>errors.Is\<close>
    (\<open>errors_Is\<close>, one unwrap per round as \<open>errors_Is_Unwrap\<close> states) and
    its root cause (\<open>err_root\<close>); the slog logger with
    its level filter, \<open>With\<close>, \<open>Info\<close>/\<open>Warn\<close>/\<open>Error\<close>, and the
    repository's \<open>sl.Err\<close>. The log output is an explicit list of records.
  \<^item> \<^theory_text>\<open>Storage\<close>: \<open>AllPermissions\<close> and the \<open>storage.Err*\<close> sentinels.
  \<^item> \<^theory_text>\<open>Service\<close>: the interface \<open>PermissionsProvider\<close> as a record of
    four state-passing methods over the provider's state \<open>'s\<close>; the struct
    \<open>Permissions\<close> (logger, provider); the world an operation changes
    (\<open>World\<close>: the log output and the provider's state); \<open>New\<close>,
    \<open>AddPerm\<close>, \<open>RemovePerm\<close>, \<open>CheckPerm\<close>, \<open>ListPerm\<close> line by line,
    every log call and early return included; \<open>as_iface\<close>, the service
    seen through the adapter's interface. The spec's taxonomy of outcomes
    (domain fault, infrastructure fault, success; their severities) is
    \<open>op_kind\<close>, \<open>domain_faults\<close>, \<open>severity\<close>.
  \<^item> \<^theory_text>\<open>Server\<close>: gRPC codes and status, the request and response
    messages, the four validators and four handlers (the remove handler
    under its source name \<open>RemovePermissionc\<close>), and the dispatch \<open>serve\<close>
    of the generated method table; \<open>first_failure\<close> and \<open>perm_checks\<close>
    state the ordered-validation contract of spec section 4.1.
  \<^item> \<^theory_text>\<open>Provider\<close>: the provider contract of spec section 4.3 as
    relations over an abstract grant map (\<open>add_spec\<close> ... \<open>list_spec\<close>,
    \<open>provider_contract\<close>), its consequences for clients, and an in-memory
    provider over an association list that meets it (\<open>mem_provider\<close>),
    with the store invariant \<open>mem_inv\<close>.
  \<^item> \<^theory_text>\<open>Stack\<close>: the wired stack (\<open>permissions_server\<close>, the adapter
    over the service over a provider), request sequences (\<open>run\<close>) and one
    step of the registered server read layer by layer, the service
    measured against the provider contract it consumes, and the effect of
    every RPC on the abstract grant map (\<open>rpc_effect\<close>: a valid add on a
    known user inserts, nothing else changes it).
  \<^item> \<^theory_text>\<open>Concurrency\<close>: concurrent requests (spec section 5). Each RPC
    is a thread of three atomic steps on the shared state (validation with
    the attempt record; the provider call; the outcome records with the
    reply), \<open>thread_step\<close>; \<open>cstep\<close> is the interleaving relation and
    \<open>sched_exec\<close> runs a schedule (a list of request indices). The
    service's code after the provider call is re-read as data
    (\<open>fault_table\<close>, \<open>fault_chain\<close>, \<open>success_log\<close>) and proved to be
    the operations (\<open>svc_op_phases\<close>). \<open>audit_tags\<close> and
    \<open>attributed\<close> say which request a record of the shared log names.
  \<^item> \<^theory_text>\<open>Linearizability\<close>: the ghost-state proof that every
    complete concurrent run is explained by the sequential server on some
    order of the requests (\<open>lin_inv\<close>, \<open>finish_reply\<close>), and its
    consequences over any contract provider: the final grants of a batch
    (a fold of \<open>rpc_effect\<close>, order-free by \<open>fold_multiset_equiv\<close>) and the
    replies of a batch without adds do not depend on the schedule.
  \<^item> \<^theory_text>\<open>App\<close>: \<open>App\<close> and \<open>New\<close> of app.go (\<open>app_New\<close>), the
    constructors it calls recorded with their arguments.
  \<^item> this theory: the abstract API the adapter promises (\<open>api_check\<close>,
    \<open>api_add\<close>, \<open>api_remove\<close>), the reachable states of the stack over the
    in-memory provider (\<open>reach\<close>, an inductive step relation), the concrete
    instances the witnesses evaluate, and the properties across components.

  \<^medskip>\<^bold>\<open>What is proved.\<close> Validation implements the ordered contract and
  rejects invalid requests before any call of the service (C1--C3); the
  accepted ids are the \<open>2^64 - 1\<close> non-zero words, negative ones included
  (C20). The adapter answers every service failure with the one internal
  status and never leaks a cause (C4, C15), and a RemovePermission RPC with
  \<open>user_id = 0\<close> answers Unimplemented, refuting spec section 8 for it (C19).
  The service normalises domain faults to its own tagged sentinels and
  passes the rest through (C5), keeping the root cause and the provider's
  state (C6), writes the promised audit records (C7), and the record of a
  failure carries the branch's message and the provider's error (C22); a
  provider that reports with the storage package's sentinel is not
  recognised: its failure is passed on and logged at Error (C11). Seen as a
  provider itself, the service refines the provider contract for add,
  remove and check (C23) but its \<open>ListPerm\<close> violates the list contract for
  every user whose grants are not \<open>{"reed"}\<close> (C24). Across the layers, for
  any provider meeting the contract: the handlers refine the abstract API
  (C13), an add is seen by a later check (C8) and a remove through
  \<open>RemovePermissionc\<close> too (C14). The registered server never reaches
  \<open>RemovePermissionc\<close>: a RemovePermission RPC answers Unimplemented and the
  grant survives (C9); ListPermissions answers \<open>["reed"]\<close> whatever the user
  (C10). Over the in-memory provider every reachable store holds only
  non-zero users and vocabulary permissions (C12). Concurrently: every run
  of \<open>n\<close> requests only appends to the log and writes at most \<open>3 n\<close> records
  (C26); over the in-memory provider no interleaving loses a valid add (C16)
  or breaks the store invariant (C17), and an add racing a check of the same
  grant answers the check \<open>false\<close> or \<open>true\<close> by which provider call runs
  first (C18); yet every complete run is linearizable: the sequential server
  on some order of the requests gives the same replies and provider state
  (C25). Over any provider meeting the contract, no RPC removes a grant,
  repeating an RPC changes nothing more and RPCs commute on the grants (C27);
  so the grants a concurrent batch leaves are fixed by the batch alone (C28),
  and a batch without adds answers as the sequential server does under
  every schedule (C30). A call cancelled or timed out in the provider is
  answered Internal and logged at Error, as an outage (C29). Under every
  interleaving each record of the shared log opens with the tags \<open>op\<close>,
  \<open>user_id\<close> and \<open>permission\<close> of a request of the batch (C31). The
  application is determined by its logger and port alone (C21). Each
  theorem with a hypothesis has a witness at the end of this theory,
  evaluated by \<open>simp\<close>.

  \<^medskip>\<^bold>\<open>Choices and limits.\<close> Nothing in the sources loops; \<open>run\<close>
  recurses on the request list and \<open>sched_exec\<close> on the schedule. A request
  takes at most three atomic steps, so the single-request run
  \<open>thread_exec\<close> with fuel 3 reaches the reply and is the registered
  server's answer (\<open>thread_exec_Register\<close>); no larger fuel is needed. The
  atomic steps are the effects on shared state in source order: validation
  reads only the request, so it is joined to the attempt record; the
  records written after the provider call are one step, since slog
  serialises each record and no claim reads records of other requests
  between them. Interface values are records of functions; Go's implicit
  interface satisfaction is \<open>as_iface\<close>. Go's \<open>(value, error)\<close> pairs are
  sums: the sources never read the value beside a non-nil error. The
  \<open>context\<close> argument is forwarded unchanged and not modelled.

  \<^medskip>\<^bold>\<open>Not modelled.\<close> The packages app.go calls (\<open>services/auth\<close>,
  \<open>app/grpc\<close>) are not in the repository and appear only as the values
  their constructors are given; the gRPC transport beyond its method table
  and the slog handler's output format are library code; cancellation
  through \<open>context\<close> is opaque to the core (spec section 5), so the model
  sees it only as the provider failing with \<open>context.Canceled\<close> or
  \<open>context.DeadlineExceeded\<close>. What the map leaves of the sources is
  package clauses, imports and the brackets of declaration blocks; the
  persistence provider and the Go libraries stay partly modelled because
  they are not in the repository.
\<close>

section \<open>The abstract API\<close>

text \<open>
  What the adapter promises over the abstract grant map (spec sections 4.1,
  4.3 and 7): an invalid request answers the first failing check and
  changes nothing; an unknown user is an internal error; otherwise check
  answers membership, add records the grant (or, for a grant already
  present, may fail), remove deletes a present grant and fails otherwise.
\<close>

definition api_check :: "agrants \<Rightarrow> PermRequest \<Rightarrow> agrants \<times> (status + CheckPermissionResponse) \<Rightarrow> bool" where
  "api_check g req res =
     (case first_failure (perm_checks req) of
        Some st \<Rightarrow> res = (g, Inl st)
      | None \<Rightarrow> (case g (user_id req) of
                   None \<Rightarrow> res = (g, Inl internal_error)
                 | Some S \<Rightarrow> res = (g, Inr (CheckPermissionResponse (permission req \<in> S)))))"

definition api_add :: "agrants \<Rightarrow> PermRequest \<Rightarrow> agrants \<times> (status + AddPermissionResponse) \<Rightarrow> bool" where
  "api_add g req res =
     (case first_failure (perm_checks req) of
        Some st \<Rightarrow> res = (g, Inl st)
      | None \<Rightarrow> (case g (user_id req) of
                   None \<Rightarrow> res = (g, Inl internal_error)
                 | Some S \<Rightarrow>
                     res = (g(user_id req \<mapsto> insert (permission req) S), Inr (AddPermissionResponse True)) \<or>
                     (permission req \<in> S \<and> res = (g, Inl internal_error))))"

definition api_remove :: "agrants \<Rightarrow> PermRequest \<Rightarrow> agrants \<times> (status + RemovePermissionResponse) \<Rightarrow> bool" where
  "api_remove g req res =
     (case first_failure (perm_checks req) of
        Some st \<Rightarrow> res = (g, Inl st)
      | None \<Rightarrow> (case g (user_id req) of
                   None \<Rightarrow> res = (g, Inl internal_error)
                 | Some S \<Rightarrow>
                     if permission req \<in> S
                     then res = (g(user_id req \<mapsto> S - {permission req}), Inr (RemovePermissionResponse True))
                     else res = (g, Inl internal_error)))"

section \<open>Request sequences and reachable states\<close>

text \<open>The worlds the registered server reaches over the in-memory provider:
  from an empty store, users created by the authentication service (a
  non-zero id), and any RPC.\<close>

inductive reach :: "Logger \<Rightarrow> MemStore World \<Rightarrow> bool" for L where
  init: "reach L \<lparr>out = [], pstate = \<lparr>grants = []\<rparr>\<rparr>"
| user: "reach L w \<Longrightarrow> u \<noteq> 0 \<Longrightarrow> reach L (w\<lparr>pstate := mem_add_user u (pstate w)\<rparr>)"
| rpc: "reach L w \<Longrightarrow> reach L (fst (Register (as_iface (New L mem_provider)) w c))"

section \<open>Concrete instances\<close>

text \<open>The inputs the witnesses run on: a logger at Info, a world whose store
  knows user 7 with the grant \<open>read\<close>, a provider whose storage is down, and
  a provider that reports an unknown user the way the storage package spells
  it (\<open>fmt.Errorf("%s: %w", op, storage.ErrUserNotFound)\<close>).\<close>

definition L0 :: Logger where
  "L0 = \<lparr>handler_level = LevelInfo, bound_attrs = [slog_String ''env'' ''local'']\<rparr>"

definition w0 :: "MemStore World" where
  "w0 = \<lparr>out = [], pstate = \<lparr>grants = [(7, [''read''])]\<rparr>\<rparr>"

definition conn_refused :: go_error where
  "conn_refused = ErrNew ''driver.ErrBadConn'' ''connection refused''"

definition down_provider :: "unit PermissionsProvider" where
  "down_provider = \<lparr>m_AddPerm = (\<lambda>s u p. (s, Inl conn_refused)),
                    m_RemovePerm = (\<lambda>s u p. (s, Inl conn_refused)),
                    m_CheckPerm = (\<lambda>s u p. (s, Inl conn_refused)),
                    m_ListPerm = (\<lambda>s u. (s, Inl conn_refused))\<rparr>"

definition storage_style_provider :: "unit PermissionsProvider" where
  "storage_style_provider =
     \<lparr>m_AddPerm = (\<lambda>s u p. (s, Inl (fmt_Errorf_w ''storage.AddPerm'' storage_ErrUserNotFound))),
      m_RemovePerm = (\<lambda>s u p. (s, Inl (fmt_Errorf_w ''storage.RemovePerm'' storage_ErrUserNotFound))),
      m_CheckPerm = (\<lambda>s u p. (s, Inl (fmt_Errorf_w ''storage.CheckPerm'' storage_ErrUserNotFound))),
      m_ListPerm = (\<lambda>s u. (s, Inl (fmt_Errorf_w ''storage.ListPerm'' storage_ErrUserNotFound)))\<rparr>"

text \<open>Concurrent instances: an add racing a check on the same grant, and two
  adds for the same user.\<close>

definition cancelled_provider :: "unit PermissionsProvider" where
  "cancelled_provider =
     \<lparr>m_AddPerm = (\<lambda>s u p. (s, Inl (fmt_Errorf_w ''storage.AddPerm'' context_Canceled))),
      m_RemovePerm = (\<lambda>s u p. (s, Inl (fmt_Errorf_w ''storage.RemovePerm'' context_Canceled))),
      m_CheckPerm = (\<lambda>s u p. (s, Inl (fmt_Errorf_w ''storage.CheckPerm'' context_Canceled))),
      m_ListPerm = (\<lambda>s u. (s, Inl (fmt_Errorf_w ''storage.ListPerm'' context_Canceled)))\<rparr>"

definition race_conf :: "tphase list \<times> MemStore World" where
  "race_conf = ([TStart (AddPermissionCall \<lparr>user_id = 7, permission = ''write''\<rparr>),
                 TStart (CheckPermissionCall \<lparr>user_id = 7, permission = ''write''\<rparr>)], w0)"

definition two_adds :: "rpc_call list" where
  "two_adds = [AddPermissionCall \<lparr>user_id = 7, permission = ''write''\<rparr>,
               AddPermissionCall \<lparr>user_id = 7, permission = ''delete''\<rparr>]"

definition read_batch :: "rpc_call list" where
  "read_batch = [CheckPermissionCall \<lparr>user_id = 7, permission = ''read''\<rparr>,
                 CheckPermissionCall \<lparr>user_id = 9, permission = ''write''\<rparr>,
                 ListPermissionsCall \<lparr>list_user_id = 7\<rparr>]"

definition one_check :: "rpc_call list" where
  "one_check = [CheckPermissionCall \<lparr>user_id = 7, permission = ''read''\<rparr>]"

section \<open>The stack, layer by layer\<close>

lemma check_refines:
  assumes "provider_contract P \<alpha>"
  shows "api_check (\<alpha> (pstate w)) req (apfst (\<alpha> \<circ> pstate) (CheckPermission (permissions_server L P) w req))"
proof (cases "first_failure (perm_checks req)")
  case (Some st)
  then show ?thesis by (simp add: api_check_def perm_checks_Some handler_invalid)
next
  case None
  then have v: "user_id req \<noteq> 0" "permission req \<in> set AllPermissions"
    by (simp_all add: perm_checks_None_iff)
  obtain s' r where pr: "m_CheckPerm P (pstate w) (user_id req) (permission req) = (s', r)"
    by fastforce
  obtain w' res where h: "CheckPermission (permissions_server L P) w req = (w', res)"
    by fastforce
  with stack_handler(1) [OF v pr, of L]
  have "pstate w' = s'" "res = map_sum (\<lambda>_. internal_error) CheckPermissionResponse r"
    by simp_all
  with contract_check [OF assms pr] None h show ?thesis
    by (cases r) (auto simp: api_check_def split: option.splits)
qed

lemma add_refines:
  assumes "provider_contract P \<alpha>"
  shows "api_add (\<alpha> (pstate w)) req (apfst (\<alpha> \<circ> pstate) (AddPermission (permissions_server L P) w req))"
proof (cases "first_failure (perm_checks req)")
  case (Some st)
  then show ?thesis by (simp add: api_add_def perm_checks_Some handler_invalid)
next
  case None
  then have v: "user_id req \<noteq> 0" "permission req \<in> set AllPermissions"
    by (simp_all add: perm_checks_None_iff)
  obtain s' r where pr: "m_AddPerm P (pstate w) (user_id req) (permission req) = (s', r)"
    by fastforce
  obtain w' res where h: "AddPermission (permissions_server L P) w req = (w', res)"
    by fastforce
  with stack_handler(2) [OF v pr, of L]
  have "pstate w' = s'" "res = map_sum (\<lambda>_. internal_error) AddPermissionResponse r"
    by simp_all
  with contract_add [OF assms pr] None h show ?thesis
    by (cases r) (auto simp: api_add_def split: option.splits)
qed

lemma remove_refines:
  assumes "provider_contract P \<alpha>"
  shows "api_remove (\<alpha> (pstate w)) req (apfst (\<alpha> \<circ> pstate) (RemovePermissionc (permissions_server L P) w req))"
proof (cases "first_failure (perm_checks req)")
  case (Some st)
  then show ?thesis by (simp add: api_remove_def perm_checks_Some handler_invalid)
next
  case None
  then have v: "user_id req \<noteq> 0" "permission req \<in> set AllPermissions"
    by (simp_all add: perm_checks_None_iff)
  obtain s' r where pr: "m_RemovePerm P (pstate w) (user_id req) (permission req) = (s', r)"
    by fastforce
  obtain w' res where h: "RemovePermissionc (permissions_server L P) w req = (w', res)"
    by fastforce
  with stack_handler(3) [OF v pr, of L]
  have "pstate w' = s'" "res = map_sum (\<lambda>_. internal_error) RemovePermissionResponse r"
    by simp_all
  with contract_remove [OF assms pr] None h show ?thesis
    by (cases r) (auto simp: api_remove_def split: option.splits if_splits)
qed

text \<open>Reading a check's answer off the abstract API.\<close>

lemmas conc_eval = numeral_3_eq_3 w0_def model_defs validate_defs svc_attempt_def
  svc_outcome_def Let_def

lemma api_check_answer:
  assumes "api_check g req (apfst f x)" and "first_failure (perm_checks req) = None"
    and "g (user_id req) = Some S"
  shows "snd x = Inr (CheckPermissionResponse (permission req \<in> S))"
  using assms by (cases x) (simp add: api_check_def)

section \<open>Properties across the layers\<close>

text \<open>
  C13: for any provider that meets the contract, the check, add and remove
  handlers over the service refine the abstract API: the abstraction of the
  world they leave and their answer are related by \<open>api_check\<close>,
  \<open>api_add\<close> and \<open>api_remove\<close>.
\<close>

theorem handlers_refine_api:
  assumes "provider_contract P \<alpha>"
  shows "api_check (\<alpha> (pstate w)) req (apfst (\<alpha> \<circ> pstate) (CheckPermission (permissions_server L P) w req)) \<and>
         api_add (\<alpha> (pstate w)) req (apfst (\<alpha> \<circ> pstate) (AddPermission (permissions_server L P) w req)) \<and>
         api_remove (\<alpha> (pstate w)) req (apfst (\<alpha> \<circ> pstate) (RemovePermissionc (permissions_server L P) w req))"
  using assms by (simp add: check_refines add_refines remove_refines)

text \<open>
  C8: round trip: for a valid request on a known user, a check after an add
  answers \<open>true\<close>, whether the add recorded the grant or found it present.
\<close>

theorem add_then_check:
  assumes "provider_contract P \<alpha>"
    and "user_id req \<noteq> 0" and "permission req \<in> set AllPermissions"
    and "\<alpha> (pstate w) (user_id req) \<noteq> None"
  shows "snd (CheckPermission (permissions_server L P)
                (fst (AddPermission (permissions_server L P) w req)) req) =
         Inr (CheckPermissionResponse True)"
proof -
  obtain w1 r1 where a: "AddPermission (permissions_server L P) w req = (w1, r1)" by fastforce
  obtain S where S: "\<alpha> (pstate w) (user_id req) = Some S" using assms(4) by blast
  have ff: "first_failure (perm_checks req) = None"
    using assms(2,3) by (simp add: perm_checks_None_iff)
  from add_refines [OF assms(1), of w req L] ff S a
  obtain S' where "\<alpha> (pstate w1) (user_id req) = Some S'" "permission req \<in> S'"
    by (auto simp: api_add_def)
  with api_check_answer [OF check_refines [OF assms(1)] ff] a show ?thesis
    by simp
qed

text \<open>
  C14: round trip: for a valid request on a known user, a check after the
  remove handler \<open>RemovePermissionc\<close> answers \<open>false\<close>.
\<close>

theorem remove_then_check:
  assumes "provider_contract P \<alpha>"
    and "user_id req \<noteq> 0" and "permission req \<in> set AllPermissions"
    and "\<alpha> (pstate w) (user_id req) \<noteq> None"
  shows "snd (CheckPermission (permissions_server L P)
                (fst (RemovePermissionc (permissions_server L P) w req)) req) =
         Inr (CheckPermissionResponse False)"
proof -
  obtain w1 r1 where a: "RemovePermissionc (permissions_server L P) w req = (w1, r1)" by fastforce
  obtain S where S: "\<alpha> (pstate w) (user_id req) = Some S" using assms(4) by blast
  have ff: "first_failure (perm_checks req) = None"
    using assms(2,3) by (simp add: perm_checks_None_iff)
  from remove_refines [OF assms(1), of w req L] ff S a
  obtain S' where "\<alpha> (pstate w1) (user_id req) = Some S'" "permission req \<notin> S'"
    by (auto simp: api_remove_def split: if_splits)
  with api_check_answer [OF check_refines [OF assms(1)] ff] a show ?thesis
    by simp
qed

text \<open>
  C9: the registered server has no RemovePermission handler: the RPC, even
  a valid one on a permission the user holds, answers \<open>Unimplemented\<close>,
  leaves the world as it was, and a check afterwards still answers
  \<open>true\<close>.
\<close>

theorem remove_rpc_unimplemented:
  assumes "provider_contract P \<alpha>"
    and "user_id req \<noteq> 0" and "permission req \<in> set AllPermissions"
    and "\<alpha> (pstate w) (user_id req) = Some S" and "permission req \<in> S"
  shows "Register (as_iface (New L P)) w (RemovePermissionCall req) =
           (w, Inl (status_Error Unimplemented ''method RemovePermission not implemented'')) \<and>
         snd (CheckPermission (permissions_server L P) w req) = Inr (CheckPermissionResponse True)"
proof
  show "Register (as_iface (New L P)) w (RemovePermissionCall req) =
          (w, Inl (status_Error Unimplemented ''method RemovePermission not implemented''))"
    by (simp add: stack_unfold)
  have ff: "first_failure (perm_checks req) = None"
    using assms(2,3) by (simp add: perm_checks_None_iff)
  from api_check_answer [OF check_refines [OF assms(1)] ff assms(4)] assms(5)
  show "snd (CheckPermission (permissions_server L P) w req) = Inr (CheckPermissionResponse True)"
    by simp
qed

text \<open>
  C10: ListPermissions, for any valid user and any provider, answers the
  constant list \<open>["reed"]\<close> and leaves the world untouched (no audit record,
  no provider call); \<open>"reed"\<close> is not even a permission of the vocabulary.
\<close>

theorem list_permissions_constant:
  assumes "list_user_id lreq \<noteq> 0"
  shows "ListPermissions (permissions_server L P) w lreq =
           (w, Inr (ListPermissionsResponse [''reed''])) \<and>
         ''reed'' \<notin> set AllPermissions"
  using assms
  by (simp add: handler_valid Validate_None_iff to_wire_def ListPerm_def AllPermissions_def)

text \<open>
  C12: in every world the registered server reaches over the in-memory
  provider, the store records only non-zero user ids and distinct permissions
  of the vocabulary: validation keeps everything else out of persistence.
\<close>

theorem reach_mem_inv: "reach L w \<Longrightarrow> mem_inv (pstate w)"
proof (induction rule: reach.induct)
  case init
  then show ?case by (simp add: mem_inv_def)
next
  case (user w u)
  then show ?case by (simp add: mem_inv_add_user)
next
  case (rpc w c)
  from rpc.IH show ?case by (rule mem_inv_stack_step)
qed

text \<open>
  C18: spec section 5 promises no order between concurrent requests. Over
  the in-memory provider, for any logger, store and valid request on a user
  the store knows but who lacks the permission, an AddPermission and a
  CheckPermission of that grant race: run the check's three steps first and
  it answers \<open>false\<close>, run the add's first and it answers \<open>true\<close>; the add
  succeeds either way and both schedules leave the same store.
\<close>

theorem check_add_race:
  assumes "user_id req \<noteq> 0" and "permission req \<in> set AllPermissions"
    and "map_of (grants (pstate w)) (user_id req) = Some ps" and "permission req \<notin> set ps"
  shows "fst (sched_exec L mem_provider [1, 1, 1, 0, 0, 0]
                ([TStart (AddPermissionCall req), TStart (CheckPermissionCall req)], w)) =
           [TDone (Inr (AddPermissionReply (AddPermissionResponse True))),
            TDone (Inr (CheckPermissionReply (CheckPermissionResponse False)))] \<and>
         fst (sched_exec L mem_provider [0, 0, 0, 1, 1, 1]
                ([TStart (AddPermissionCall req), TStart (CheckPermissionCall req)], w)) =
           [TDone (Inr (AddPermissionReply (AddPermissionResponse True))),
            TDone (Inr (CheckPermissionReply (CheckPermissionResponse True)))] \<and>
         pstate (snd (sched_exec L mem_provider [1, 1, 1, 0, 0, 0]
                ([TStart (AddPermissionCall req), TStart (CheckPermissionCall req)], w))) =
         pstate (snd (sched_exec L mem_provider [0, 0, 0, 1, 1, 1]
                ([TStart (AddPermissionCall req), TStart (CheckPermissionCall req)], w)))"
proof -
  have v: "ValidateCheckPermission req = None" "ValidateAddPermission req = None"
    using assms(1,2) by (simp_all add: Validate_None_iff)
  show ?thesis
    using assms(3,4) by (simp add: v numeral_3_eq_3 mem_defs svc_outcome_def Let_def update_conv')
qed

section \<open>Witnesses\<close>

text \<open>Each theorem with a hypothesis, applied at a concrete input where its
  hypotheses hold, the definitions evaluated by \<open>simp\<close>.\<close>

theorem zero_uid_rejected_witness:
  "user_id \<lparr>user_id = 0, permission = ''read''\<rparr> = 0 \<and> list_user_id \<lparr>list_user_id = 0\<rparr> = 0 \<and>
   CheckPermission (permissions_server L0 mem_provider) w0 \<lparr>user_id = 0, permission = ''read''\<rparr> = (w0, Inl uid_required) \<and>
   ListPermissions (permissions_server L0 mem_provider) w0 \<lparr>list_user_id = 0\<rparr> = (w0, Inl uid_required)"
  using zero_uid_rejected [of "\<lparr>user_id = 0, permission = ''read''\<rparr>" "\<lparr>list_user_id = 0\<rparr>"
      "permissions_server L0 mem_provider" w0]
  by simp

theorem unknown_permission_rejected_witness:
  "(7::int64) \<noteq> 0 \<and> ''execute'' \<notin> set AllPermissions \<and>
   RemovePermissionc (permissions_server L0 mem_provider) w0 \<lparr>user_id = 7, permission = ''execute''\<rparr> =
     (w0, Inl invalid_permission)"
  using unknown_permission_rejected [of "\<lparr>user_id = 7, permission = ''execute''\<rparr>"
      "permissions_server L0 mem_provider" w0]
  by (simp add: model_defs)

theorem service_failure_internal_witness:
  "m_CheckPerm down_provider () 7 ''read'' = ((), Inl conn_refused) \<and>
   CheckPermission \<lparr>permissions = down_provider\<rparr> () \<lparr>user_id = 7, permission = ''read''\<rparr> = ((), Inl internal_error) \<and>
   ListPermissions \<lparr>permissions = down_provider\<rparr> () \<lparr>list_user_id = 7\<rparr> = ((), Inl internal_error)"
  using service_failure_internal [of "\<lparr>user_id = 7, permission = ''read''\<rparr>" "\<lparr>permissions = down_provider\<rparr>"
      "()" "()" conn_refused "\<lparr>list_user_id = 7\<rparr>"]
  by (simp add: AllPermissions_def down_provider_def)

theorem svc_normalise_witness:
  "m_AddPerm mem_provider (pstate w0) 9 ''write'' = (pstate w0, Inl ErrUserNotFound) \<and>
   snd (AddPerm (New L0 mem_provider) w0 9 ''write'') =
     Inl (fmt_Errorf_w ''permissions.AddPerm'' ErrUserNotFound)"
  using svc_normalise [of OpAdd "New L0 mem_provider" w0 9 "''write''" "pstate w0" ErrUserNotFound]
  by (simp add: w0_def is_domain_fault_def model_defs)

theorem svc_root_cause_witness:
  "m_CheckPerm mem_provider (pstate w0) 7 ''read'' = (pstate w0, Inr True) \<and>
   pstate (fst (CheckPerm (New L0 mem_provider) w0 7 ''read'')) = pstate w0 \<and>
   map_sum err_root id (snd (CheckPerm (New L0 mem_provider) w0 7 ''read'')) = Inr True"
  using svc_root_cause [of OpCheck "New L0 mem_provider" w0 7 "''read''" "pstate w0" "Inr True"]
  by (simp add: w0_def model_defs)

theorem svc_audit_witness:
  "handler_level L0 \<le> LevelInfo \<and>
   m_AddPerm mem_provider (pstate w0) 7 ''write'' =
     (\<lparr>grants = [(7, [''read'', ''write''])]\<rparr>, Inr True) \<and>
   (\<exists>recs. out (fst (AddPerm (New L0 mem_provider) w0 7 ''write'')) = recs \<and> length recs = 2 \<and>
      rec_msg (recs ! 0) = ''attempting to add permission'' \<and> rec_level (recs ! 1) = LevelInfo)"
proof -
  have h: "prov_op OpAdd (permProvider (New L0 mem_provider)) (pstate w0) 7 ''write'' =
             (\<lparr>grants = [(7, [''read'', ''write''])]\<rparr>, Inr True)"
    by (simp add: w0_def model_defs)
  have lv: "handler_level (log (New L0 mem_provider)) \<le> LevelInfo"
    by (simp add: L0_def)
  from svc_audit [OF lv h] h lv show ?thesis
    by (auto simp: w0_def severity_def)
qed

theorem add_then_check_witness:
  "provider_contract mem_provider mem_abs \<and> mem_abs (pstate w0) 7 \<noteq> None \<and>
   snd (CheckPermission (permissions_server L0 mem_provider)
          (fst (AddPermission (permissions_server L0 mem_provider) w0 \<lparr>user_id = 7, permission = ''write''\<rparr>))
          \<lparr>user_id = 7, permission = ''write''\<rparr>) = Inr (CheckPermissionResponse True)"
  using add_then_check [OF mem_provider_contract, of "\<lparr>user_id = 7, permission = ''write''\<rparr>" w0 L0]
    mem_provider_contract
  by (simp add: w0_def mem_abs_def AllPermissions_def)

theorem remove_then_check_witness:
  "provider_contract mem_provider mem_abs \<and> mem_abs (pstate w0) 7 \<noteq> None \<and>
   snd (CheckPermission (permissions_server L0 mem_provider)
          (fst (RemovePermissionc (permissions_server L0 mem_provider) w0 \<lparr>user_id = 7, permission = ''read''\<rparr>))
          \<lparr>user_id = 7, permission = ''read''\<rparr>) = Inr (CheckPermissionResponse False)"
  using remove_then_check [OF mem_provider_contract, of "\<lparr>user_id = 7, permission = ''read''\<rparr>" w0 L0]
    mem_provider_contract
  by (simp add: w0_def mem_abs_def AllPermissions_def)

theorem remove_rpc_unimplemented_witness:
  "provider_contract mem_provider mem_abs \<and> mem_abs (pstate w0) 7 = Some {''read''} \<and>
   Register (as_iface (New L0 mem_provider)) w0 (RemovePermissionCall \<lparr>user_id = 7, permission = ''read''\<rparr>) =
     (w0, Inl (status_Error Unimplemented ''method RemovePermission not implemented'')) \<and>
   snd (CheckPermission (permissions_server L0 mem_provider) w0 \<lparr>user_id = 7, permission = ''read''\<rparr>) =
     Inr (CheckPermissionResponse True)"
  using remove_rpc_unimplemented [OF mem_provider_contract, of "\<lparr>user_id = 7, permission = ''read''\<rparr>" w0 "{''read''}" L0]
    mem_provider_contract
  by (simp add: w0_def mem_abs_def AllPermissions_def)

theorem list_permissions_constant_witness:
  "list_user_id \<lparr>list_user_id = 7\<rparr> \<noteq> 0 \<and> mem_ListPerm (pstate w0) 7 = (pstate w0, Inr [''read'']) \<and>
   ListPermissions (permissions_server L0 mem_provider) w0 \<lparr>list_user_id = 7\<rparr> =
     (w0, Inr (ListPermissionsResponse [''reed'']))"
  using list_permissions_constant [of "\<lparr>list_user_id = 7\<rparr>" L0 mem_provider w0]
  by (simp add: w0_def model_defs)

theorem storage_not_found_is_infra_witness:
  "errors_Is (fmt_Errorf_w ''storage.AddPerm'' storage_ErrUserNotFound) storage_ErrUserNotFound \<and>
   handler_level (log (New L0 storage_style_provider)) \<le> LevelError \<and>
   snd (AddPerm (New L0 storage_style_provider) \<lparr>out = [], pstate = ()\<rparr> 7 ''write'') =
     Inl (fmt_Errorf_w ''storage.AddPerm'' storage_ErrUserNotFound) \<and>
   rec_level (last (out (fst (AddPerm (New L0 storage_style_provider) \<lparr>out = [], pstate = ()\<rparr> 7 ''write'')))) =
     LevelError"
  using storage_not_found_is_infra [of OpAdd "New L0 storage_style_provider" "\<lparr>out = [], pstate = ()\<rparr>"
      7 "''write''" "()" "fmt_Errorf_w ''storage.AddPerm'' storage_ErrUserNotFound"]
  by (simp add: storage_style_provider_def model_defs L0_def)

theorem reach_mem_inv_witness:
  "reach L0 (fst (Register (as_iface (New L0 mem_provider))
                   (\<lparr>out = [], pstate = \<lparr>grants = []\<rparr>\<rparr>\<lparr>pstate := mem_add_user 7 \<lparr>grants = []\<rparr>\<rparr>)
                   (AddPermissionCall \<lparr>user_id = 7, permission = ''write''\<rparr>))) \<and>
   mem_inv (pstate (fst (Register (as_iface (New L0 mem_provider))
                   (\<lparr>out = [], pstate = \<lparr>grants = []\<rparr>\<rparr>\<lparr>pstate := mem_add_user 7 \<lparr>grants = []\<rparr>\<rparr>)
                   (AddPermissionCall \<lparr>user_id = 7, permission = ''write''\<rparr>))))"
proof -
  have u: "reach L0 (\<lparr>out = [], pstate = \<lparr>grants = []\<rparr>\<rparr>\<lparr>pstate := mem_add_user 7 \<lparr>grants = []\<rparr>\<rparr>)"
    using reach.user [OF reach.init [of L0], of 7] by simp
  have r: "reach L0 (fst (Register (as_iface (New L0 mem_provider))
                   (\<lparr>out = [], pstate = \<lparr>grants = []\<rparr>\<rparr>\<lparr>pstate := mem_add_user 7 \<lparr>grants = []\<rparr>\<rparr>)
                   (AddPermissionCall \<lparr>user_id = 7, permission = ''write''\<rparr>)))"
    by (rule reach.rpc [OF u])
  from r reach_mem_inv [OF r] show ?thesis by blast
qed

theorem handlers_refine_api_witness:
  "provider_contract mem_provider mem_abs \<and>
   api_add (mem_abs (pstate w0)) \<lparr>user_id = 7, permission = ''write''\<rparr>
     (apfst (mem_abs \<circ> pstate) (AddPermission (permissions_server L0 mem_provider) w0 \<lparr>user_id = 7, permission = ''write''\<rparr>))"
  using handlers_refine_api [OF mem_provider_contract, of w0 "\<lparr>user_id = 7, permission = ''write''\<rparr>" L0]
    mem_provider_contract
  by simp

theorem no_lost_add_witness:
  "(cstep L0 mem_provider)\<^sup>*\<^sup>* (map TStart two_adds, w0)
      (sched_exec L0 mem_provider [0, 1, 0, 1, 0, 1] (map TStart two_adds, w0)) \<and>
   list_all is_done (fst (sched_exec L0 mem_provider [0, 1, 0, 1, 0, 1] (map TStart two_adds, w0))) \<and>
   AddPermissionCall \<lparr>user_id = 7, permission = ''delete''\<rparr> \<in> set two_adds \<and>
   ValidateAddPermission \<lparr>user_id = 7, permission = ''delete''\<rparr> = None \<and>
   map_of (grants (pstate w0)) 7 \<noteq> None \<and>
   mem_granted (pstate (snd (sched_exec L0 mem_provider [0, 1, 0, 1, 0, 1] (map TStart two_adds, w0)))) 7 ''delete''"
proof -
  let ?C = "sched_exec L0 mem_provider [0, 1, 0, 1, 0, 1] (map TStart two_adds, w0)"
  have r: "(cstep L0 mem_provider)\<^sup>*\<^sup>* (map TStart two_adds, w0) (fst ?C, snd ?C)"
    by (rule sched_exec_reach)
  have d: "list_all is_done (fst ?C)" by (simp add: two_adds_def conc_eval)
  have a: "AddPermissionCall \<lparr>user_id = 7, permission = ''delete''\<rparr> \<in> set two_adds"
    "ValidateAddPermission \<lparr>user_id = 7, permission = ''delete''\<rparr> = None"
    "map_of (grants (pstate w0)) 7 \<noteq> None"
    by (simp_all add: two_adds_def conc_eval)
  from no_lost_add [of L0 two_adds w0 "fst ?C" "snd ?C" "\<lparr>user_id = 7, permission = ''delete''\<rparr>"] r d a
  show ?thesis by simp
qed


theorem interleaved_mem_inv_witness:
  "(cstep L0 mem_provider)\<^sup>*\<^sup>* (map TStart two_adds, w0)
      (sched_exec L0 mem_provider [0, 1, 0, 1, 0, 1] (map TStart two_adds, w0)) \<and>
   mem_inv (pstate w0) \<and>
   mem_inv (pstate (snd (sched_exec L0 mem_provider [0, 1, 0, 1, 0, 1] (map TStart two_adds, w0))))"
proof -
  let ?C = "sched_exec L0 mem_provider [0, 1, 0, 1, 0, 1] (map TStart two_adds, w0)"
  have r: "(cstep L0 mem_provider)\<^sup>*\<^sup>* (map TStart two_adds, w0) ?C" by (rule sched_exec_sound)
  have i: "mem_inv (pstate w0)" by (simp add: w0_def mem_inv_def AllPermissions_def)
  from interleaved_mem_inv [OF r i] r i show ?thesis by simp
qed

theorem Register_zero_uid_witness:
  "user_id \<lparr>user_id = 0, permission = ''write''\<rparr> = 0 \<and> list_user_id \<lparr>list_user_id = 0\<rparr> = 0 \<and>
   Register (as_iface (New L0 mem_provider)) w0 (AddPermissionCall \<lparr>user_id = 0, permission = ''write''\<rparr>) =
     (w0, Inl uid_required) \<and>
   Register (as_iface (New L0 mem_provider)) w0 (RemovePermissionCall \<lparr>user_id = 0, permission = ''write''\<rparr>) =
     (w0, Inl (status_Error Unimplemented ''method RemovePermission not implemented''))"
  using Register_zero_uid [of "\<lparr>user_id = 0, permission = ''write''\<rparr>" "\<lparr>list_user_id = 0\<rparr>"
      "as_iface (New L0 mem_provider)" w0]
  by simp

theorem audit_failure_record_witness:
  "prov_op OpAdd (permProvider (New L0 down_provider)) (pstate \<lparr>out = [], pstate = ()\<rparr>) 7 ''write'' =
     ((), Inl conn_refused) \<and>
   handler_level (log (New L0 down_provider)) \<le> LevelInfo \<and>
   out (fst (svc_op OpAdd (New L0 down_provider) \<lparr>out = [], pstate = ()\<rparr> 7 ''write'')) =
     svc_attempt OpAdd (New L0 down_provider) 7 ''write'' [] @
     [\<lparr>rec_level = LevelError, rec_msg = ''failed to add permission'',
       rec_attrs = [(''env'', StringValue ''local''), (''op'', StringValue ''permissions.AddPerm''),
         (''user_id'', Int64Value 7), (''permission'', StringValue ''write''),
         (''error'', StringValue ''connection refused'')]\<rparr>]"
proof -
  have h: "prov_op OpAdd (permProvider (New L0 down_provider)) (pstate \<lparr>out = [], pstate = ()\<rparr>) 7 ''write'' =
             ((), Inl conn_refused)"
    by (simp add: down_provider_def)
  have lv: "handler_level (log (New L0 down_provider)) \<le> LevelInfo"
    by (simp add: L0_def)
  from audit_failure_record [OF h lv] h lv show ?thesis
    by (simp add: L0_def conn_refused_def model_defs severity_def is_domain_fault_def fault_msg_def)
qed

theorem service_meets_contract_witness:
  "provider_contract mem_provider mem_abs \<and>
   add_spec (mem_abs (pstate w0)) 7 ''write'' (apfst (mem_abs \<circ> pstate) (AddPerm (New L0 mem_provider) w0 7 ''write''))"
  using service_meets_contract [OF mem_provider_contract, of w0 7 "''write''" L0] mem_provider_contract
  by simp

theorem ListPerm_violates_list_spec_witness:
  "mem_abs (pstate w0) 7 = Some {''read''} \<and> {''read''} \<noteq> {''reed''} \<and>
   \<not> list_spec (mem_abs (pstate w0)) 7 (apfst (mem_abs \<circ> pstate) (ListPerm (New L0 mem_provider) w0 7))"
proof -
  have a: "mem_abs (pstate w0) 7 = Some {''read''}" by (simp add: w0_def mem_abs_def)
  have b: "{''read''} \<noteq> {''reed''}" by simp
  from ListPerm_violates_list_spec [of mem_abs w0 7 "{''read''}" "New L0 mem_provider", OF a b] a b
  show ?thesis by simp
qed

theorem linearizable_witness:
  "(cstep L0 mem_provider)\<^sup>*\<^sup>* (map TStart two_adds, w0)
      (sched_exec L0 mem_provider [0, 1, 0, 1, 0, 1] (map TStart two_adds, w0)) \<and>
   list_all is_done (fst (sched_exec L0 mem_provider [0, 1, 0, 1, 0, 1] (map TStart two_adds, w0))) \<and>
   (\<exists>order. distinct order \<and> set order = {..<length two_adds} \<and>
      pstate (snd (sched_exec L0 mem_provider [0, 1, 0, 1, 0, 1] (map TStart two_adds, w0))) =
        pstate (fst (run (Register (as_iface (New L0 mem_provider))) w0 (map ((!) two_adds) order))) \<and>
      map ((!) (fst (sched_exec L0 mem_provider [0, 1, 0, 1, 0, 1] (map TStart two_adds, w0)))) order =
        map TDone (snd (run (Register (as_iface (New L0 mem_provider))) w0 (map ((!) two_adds) order))))"
proof -
  let ?C = "sched_exec L0 mem_provider [0, 1, 0, 1, 0, 1] (map TStart two_adds, w0)"
  have r: "(cstep L0 mem_provider)\<^sup>*\<^sup>* (map TStart two_adds, w0) (fst ?C, snd ?C)"
    by (rule sched_exec_reach)
  have d: "list_all is_done (fst ?C)" by (simp add: two_adds_def conc_eval)
  from linearizable [OF r d] r d show ?thesis by simp
qed

theorem log_bounded_witness:
  "(cstep L0 mem_provider)\<^sup>*\<^sup>* (map TStart one_check, w0)
      (sched_exec L0 mem_provider [0, 0, 0] (map TStart one_check, w0)) \<and>
   (\<exists>new. out (snd (sched_exec L0 mem_provider [0, 0, 0] (map TStart one_check, w0))) = out w0 @ new \<and>
      length new \<le> 3 * length one_check) \<and>
   length (out (snd (sched_exec L0 mem_provider [0, 0, 0] (map TStart one_check, w0)))) = 3"
proof -
  let ?C = "sched_exec L0 mem_provider [0, 0, 0] (map TStart one_check, w0)"
  have r: "(cstep L0 mem_provider)\<^sup>*\<^sup>* (map TStart one_check, w0) (fst ?C, snd ?C)"
    by (rule sched_exec_reach)
  have "length (out (snd ?C)) = 3"
    by (simp add: one_check_def conc_eval op_logger_def L0_def)
  with log_bounded [OF r] r show ?thesis by simp
qed

theorem server_grant_laws_witness:
  "provider_contract mem_provider mem_abs \<and>
   mem_abs (pstate w0) 7 = Some {''read''} \<and>
   (\<exists>S'. mem_abs (pstate (fst (Register (as_iface (New L0 mem_provider)) w0
               (AddPermissionCall \<lparr>user_id = 7, permission = ''write''\<rparr>)))) 7 = Some S' \<and> {''read''} \<subseteq> S') \<and>
   mem_abs (pstate (fst (Register (as_iface (New L0 mem_provider))
       (fst (Register (as_iface (New L0 mem_provider)) w0 (AddPermissionCall \<lparr>user_id = 7, permission = ''write''\<rparr>)))
       (AddPermissionCall \<lparr>user_id = 7, permission = ''write''\<rparr>)))) =
     mem_abs (pstate (fst (Register (as_iface (New L0 mem_provider)) w0
       (AddPermissionCall \<lparr>user_id = 7, permission = ''write''\<rparr>)))) \<and>
   mem_abs (pstate (fst (Register (as_iface (New L0 mem_provider))
       (fst (Register (as_iface (New L0 mem_provider)) w0 (AddPermissionCall \<lparr>user_id = 7, permission = ''write''\<rparr>)))
       (AddPermissionCall \<lparr>user_id = 7, permission = ''delete''\<rparr>)))) =
     mem_abs (pstate (fst (Register (as_iface (New L0 mem_provider))
       (fst (Register (as_iface (New L0 mem_provider)) w0 (AddPermissionCall \<lparr>user_id = 7, permission = ''delete''\<rparr>)))
       (AddPermissionCall \<lparr>user_id = 7, permission = ''write''\<rparr>))))"
  using server_grant_laws [OF mem_provider_contract, of w0 7 "{''read''}" L0
      "AddPermissionCall \<lparr>user_id = 7, permission = ''write''\<rparr>"
      "AddPermissionCall \<lparr>user_id = 7, permission = ''write''\<rparr>"
      "AddPermissionCall \<lparr>user_id = 7, permission = ''delete''\<rparr>"]
    mem_provider_contract mem_abs_lookup [of "pstate w0" 7]
  by (simp add: w0_def)

theorem cancellation_is_internal_witness:
  "(7::int64) \<noteq> 0 \<and> ''read'' \<in> set AllPermissions \<and>
   err_root (fmt_Errorf_w ''storage.CheckPerm'' context_Canceled) = context_Canceled \<and>
   handler_level L0 \<le> LevelError \<and>
   snd (Register (as_iface (New L0 cancelled_provider)) \<lparr>out = [], pstate = ()\<rparr>
          (CheckPermissionCall \<lparr>user_id = 7, permission = ''read''\<rparr>)) = Inl internal_error \<and>
   rec_level (last (out (fst (CheckPerm (New L0 cancelled_provider) \<lparr>out = [], pstate = ()\<rparr> 7 ''read'')))) =
     LevelError"
  using cancellation_is_internal [of "\<lparr>user_id = 7, permission = ''read''\<rparr>"
      "fmt_Errorf_w ''storage.CheckPerm'' context_Canceled" L0 cancelled_provider "\<lparr>out = [], pstate = ()\<rparr>" "()"]
  by (simp add: cancelled_provider_def AllPermissions_def context_errors L0_def level_defs)

theorem batch_grants_witness:
  "provider_contract mem_provider mem_abs \<and>
   (cstep L0 mem_provider)\<^sup>*\<^sup>* (map TStart two_adds, w0)
      (sched_exec L0 mem_provider [0, 1, 1, 0, 1, 0] (map TStart two_adds, w0)) \<and>
   list_all is_done (fst (sched_exec L0 mem_provider [0, 1, 1, 0, 1, 0] (map TStart two_adds, w0))) \<and>
   mem_abs (pstate (snd (sched_exec L0 mem_provider [0, 1, 1, 0, 1, 0] (map TStart two_adds, w0)))) =
     fold (\<lambda>c g. rpc_effect g c) two_adds (mem_abs (pstate w0))"
proof -
  let ?C = "sched_exec L0 mem_provider [0, 1, 1, 0, 1, 0] (map TStart two_adds, w0)"
  have r: "(cstep L0 mem_provider)\<^sup>*\<^sup>* (map TStart two_adds, w0) (fst ?C, snd ?C)"
    by (rule sched_exec_reach)
  have d: "list_all is_done (fst ?C)" by (simp add: two_adds_def conc_eval)
  from batch_grants [OF mem_provider_contract r d] r d mem_provider_contract show ?thesis by simp
qed

theorem readonly_batch_deterministic_witness:
  "provider_contract mem_provider mem_abs \<and> \<not> list_ex writes_grants read_batch \<and>
   (cstep L0 mem_provider)\<^sup>*\<^sup>* (map TStart read_batch, w0)
      (sched_exec L0 mem_provider [2, 1, 0, 1, 0, 1, 0] (map TStart read_batch, w0)) \<and>
   list_all is_done (fst (sched_exec L0 mem_provider [2, 1, 0, 1, 0, 1, 0] (map TStart read_batch, w0))) \<and>
   fst (sched_exec L0 mem_provider [2, 1, 0, 1, 0, 1, 0] (map TStart read_batch, w0)) =
     map TDone (snd (run (Register (as_iface (New L0 mem_provider))) w0 read_batch))"
proof -
  let ?C = "sched_exec L0 mem_provider [2, 1, 0, 1, 0, 1, 0] (map TStart read_batch, w0)"
  have r: "(cstep L0 mem_provider)\<^sup>*\<^sup>* (map TStart read_batch, w0) (fst ?C, snd ?C)"
    by (rule sched_exec_reach)
  have d: "list_all is_done (fst ?C)"
    by (simp add: read_batch_def conc_eval stack_unfold handler_defs op_logger_def L0_def)
  have nw: "\<not> list_ex writes_grants read_batch" by (simp add: read_batch_def)
  have e: "fst ?C = map TDone (snd (run (Register (as_iface (New L0 mem_provider))) w0 read_batch))"
    by (rule readonly_batch_deterministic [OF mem_provider_contract nw r d])
  from r have r': "(cstep L0 mem_provider)\<^sup>*\<^sup>* (map TStart read_batch, w0) ?C"
    by (simp only: prod.collapse)
  from mem_provider_contract nw r' d e show ?thesis by (intro conjI)
qed

theorem audit_attribution_witness:
  "(cstep L0 mem_provider)\<^sup>*\<^sup>* (map TStart two_adds, w0)
      (sched_exec L0 mem_provider [0, 1, 0, 1, 0, 1] (map TStart two_adds, w0)) \<and>
   list_all (attributed L0 two_adds) (out w0) \<and>
   list_all (attributed L0 two_adds) (out (snd (sched_exec L0 mem_provider [0, 1, 0, 1, 0, 1] (map TStart two_adds, w0)))) \<and>
   length (out (snd (sched_exec L0 mem_provider [0, 1, 0, 1, 0, 1] (map TStart two_adds, w0)))) = 4"
proof -
  let ?C = "sched_exec L0 mem_provider [0, 1, 0, 1, 0, 1] (map TStart two_adds, w0)"
  have r: "(cstep L0 mem_provider)\<^sup>*\<^sup>* (map TStart two_adds, w0) (fst ?C, snd ?C)"
    by (rule sched_exec_reach)
  have i: "list_all (attributed L0 two_adds) (out w0)" by (simp add: w0_def)
  have n: "length (out (snd ?C)) = 4"
    by (simp add: two_adds_def conc_eval op_logger_def L0_def)
  from audit_attribution [OF r i] r i n show ?thesis by simp
qed

theorem check_add_race_witness:
  "user_id \<lparr>user_id = 7, permission = ''write''\<rparr> \<noteq> 0 \<and>
   permission \<lparr>user_id = 7, permission = ''write''\<rparr> \<in> set AllPermissions \<and>
   map_of (grants (pstate w0)) (user_id \<lparr>user_id = 7, permission = ''write''\<rparr>) = Some [''read''] \<and>
   permission \<lparr>user_id = 7, permission = ''write''\<rparr> \<notin> set [''read''] \<and>
   fst (sched_exec L0 mem_provider [1, 1, 1, 0, 0, 0] race_conf) =
     [TDone (Inr (AddPermissionReply (AddPermissionResponse True))),
      TDone (Inr (CheckPermissionReply (CheckPermissionResponse False)))] \<and>
   fst (sched_exec L0 mem_provider [0, 0, 0, 1, 1, 1] race_conf) =
     [TDone (Inr (AddPermissionReply (AddPermissionResponse True))),
      TDone (Inr (CheckPermissionReply (CheckPermissionResponse True)))]"
proof -
  have h: "user_id \<lparr>user_id = 7, permission = ''write''\<rparr> \<noteq> 0"
    "permission \<lparr>user_id = 7, permission = ''write''\<rparr> \<in> set AllPermissions"
    "map_of (grants (pstate w0)) (user_id \<lparr>user_id = 7, permission = ''write''\<rparr>) = Some [''read'']"
    "permission \<lparr>user_id = 7, permission = ''write''\<rparr> \<notin> set [''read'']"
    by (simp_all add: AllPermissions_def w0_def)
  from check_add_race [OF h, of L0] h show ?thesis by (simp add: race_conf_def)
qed

end
